theory Spec2Isabelle
  imports Main "HOL-Library.Word" "HOL-Library.Log_Nat" "HOL-Library.Sublist"
begin

unbundle bit_operations_syntax

section \<open>The RealtimeSTT WebSocket bridge (server/realtimestt.py)\<close>

text \<open>
  The development follows \<^verbatim>\<open>src/server/realtimestt.py\<close>: the numeric conversion
  \<^verbatim>\<open>float32_to_int16\<close>, the callbacks that build the outbound messages, the
  sender task, and the receive loop of \<^verbatim>\<open>handler\<close> with its \<^verbatim>\<open>finally\<close> block.
  Library code (numpy, json, asyncio, websockets, the recognition engine) is not
  part of the repository; what the bridge needs from it is written out where its
  behaviour is fixed by the library's documentation (IEEE-754 single precision,
  the C cast to \<^verbatim>\<open>int16\<close>, \<^verbatim>\<open>str.strip\<close>), and taken as a parameter where
  it is not (\<^verbatim>\<open>json.loads\<close>, the cast of a value outside the \<^verbatim>\<open>int16\<close> range).
\<close>

subsection \<open>Bytes, samples and Python exceptions\<close>

type_synonym byte = "8 word"
type_synonym bytes = "byte list"
type_synonym float32 = "32 word"
type_synonym int16 = "16 word"

text \<open>The exceptions that can leave the body of the receive loop.\<close>

datatype py_error = ValueError | AttributeError | JSONDecodeError | RecursionError | CancelledError

subsection \<open>IEEE-754 single precision, as far as the adapter uses it\<close>

text \<open>
  A \<^verbatim>\<open>float32\<close> is its 32-bit pattern. A finite value is \<open>(-1)\<^sup>s \<sqdot> m \<sqdot> 2\<^sup>e\<close> with
  \<open>m < 2\<^sup>2\<^sup>4\<close>; the exponent field 255 holds the infinities and the NaNs, the
  exponent field 0 the zeros and the subnormal numbers.
\<close>

datatype fval = Finite bool nat int | Infinite bool | NaN

definition f32_decode :: "float32 \<Rightarrow> fval" where
  "f32_decode w =
     (let s = bit w 31;
          E = unat (take_bit 8 (drop_bit 23 w));
          F = unat (take_bit 23 w)
      in if E = 255 then (if F = 0 then Infinite s else NaN)
         else if E = 0 then Finite s F (- 149)
         else Finite s (2 ^ 23 + F) (int E - 150))"

text \<open>\<open>round_nearest_even M k\<close> is \<open>M / 2\<^sup>k\<close> rounded to the nearest integer, ties to even.\<close>

definition round_nearest_even :: "nat \<Rightarrow> nat \<Rightarrow> nat" where
  "round_nearest_even M k =
     (let q = M div 2 ^ k; r = M mod 2 ^ k
      in if 2 ^ k < 2 * r \<or> (2 * r = 2 ^ k \<and> odd q) then q + 1 else q)"

text \<open>
  Rounding of the exact value \<open>(-1)\<^sup>s \<sqdot> M \<sqdot> 2\<^sup>e\<close> to single precision (round to
  nearest, ties to even; overflow gives an infinity). The exponent \<open>e\<close> is never
  below that of the smallest subnormal number here, since the only operation is
  a multiplication by an integer constant, so no underflow case arises.
\<close>

definition f32_round :: "bool \<Rightarrow> nat \<Rightarrow> int \<Rightarrow> fval" where
  "f32_round s M e =
     (let k = bitlen (int M) - 24
      in if k \<le> 0 then Finite s M e
         else let q = round_nearest_even M (nat k)
              in if 0 \<le> e + k \<and> 2 ^ 128 \<le> int q * 2 ^ nat (e + k) then Infinite s
                 else Finite s q (e + k))"

text \<open>\<^verbatim>\<open>audio_float32 * 32767\<close>: the product of a sample with the constant, in single precision.\<close>

definition f32_times_32767 :: "float32 \<Rightarrow> fval" where
  "f32_times_32767 w =
     (case f32_decode w of
        Finite s m e \<Rightarrow> f32_round s (m * 32767) e
      | Infinite s \<Rightarrow> Infinite s
      | NaN \<Rightarrow> NaN)"

text \<open>The integral part of a finite value: the fraction is discarded (towards zero).\<close>

definition trunc_int :: "bool \<Rightarrow> nat \<Rightarrow> int \<Rightarrow> int" where
  "trunc_int s m e =
     (let a = (if 0 \<le> e then int m * 2 ^ nat e else int m div 2 ^ nat (- e))
      in if s then - a else a)"

text \<open>
  \<^verbatim>\<open>.astype(np.int16)\<close> is the C conversion: the value is truncated towards zero.
  Where the integral part does not fit (or the value is an infinity or a NaN) the
  result depends on the platform; \<open>oor\<close> stands for it. No case raises.
\<close>

definition astype_int16 :: "(fval \<Rightarrow> int16) \<Rightarrow> fval \<Rightarrow> int16" where
  "astype_int16 oor x =
     (case x of
        Finite s m e \<Rightarrow>
          (let i = trunc_int s m e
           in if - 32768 \<le> i \<and> i \<le> 32767 then word_of_int i else oor x)
      | _ \<Rightarrow> oor x)"

text \<open>\<^verbatim>\<open>.tobytes()\<close> of an \<^verbatim>\<open>int16\<close> array: two bytes per sample, low byte first.\<close>

definition int16_le :: "int16 \<Rightarrow> bytes" where
  "int16_le v = [ucast v, ucast (drop_bit 8 v)]"

definition float32_to_int16 :: "(fval \<Rightarrow> int16) \<Rightarrow> float32 list \<Rightarrow> bytes" where
  "float32_to_int16 oor audio_float32 =
     concat (map (\<lambda>w. int16_le (astype_int16 oor (f32_times_32767 w))) audio_float32)"

text \<open>
  \<^verbatim>\<open>np.frombuffer(message, dtype=np.float32)\<close>: four bytes per sample, low byte
  first; a buffer whose size is not a multiple of the element size raises
  \<^verbatim>\<open>ValueError\<close>.
\<close>

fun le_words32 :: "bytes \<Rightarrow> float32 list" where
  "le_words32 (b0 # b1 # b2 # b3 # bs) =
     (ucast b0 OR push_bit 8 (ucast b1) OR push_bit 16 (ucast b2) OR push_bit 24 (ucast b3))
       # le_words32 bs"
| "le_words32 _ = []"

definition frombuffer :: "bytes \<Rightarrow> py_error + float32 list" where
  "frombuffer buf = (if length buf mod 4 \<noteq> 0 then Inl ValueError else Inr (le_words32 buf))"

text \<open>The rational number a finite pattern stands for, and the samples of the expected range.\<close>

definition fval_rat :: "bool \<Rightarrow> nat \<Rightarrow> int \<Rightarrow> rat" where
  "fval_rat s m e =
     (if s then - 1 else 1) * of_nat m * (if 0 \<le> e then 2 ^ nat e else 1 / 2 ^ nat (- e))"

definition sample_value :: "float32 \<Rightarrow> rat option" where
  "sample_value w = (case f32_decode w of Finite s m e \<Rightarrow> Some (fval_rat s m e) | _ \<Rightarrow> None)"

definition in_unit_range :: "float32 \<Rightarrow> bool" where
  "in_unit_range w = (case sample_value w of Some v \<Rightarrow> - 1 \<le> v \<and> v \<le> 1 | None \<Rightarrow> False)"

text \<open>
  The value of the single-precision product, and the integer obtained from a
  rational by discarding its fraction.
\<close>

definition product_value :: "float32 \<Rightarrow> rat option" where
  "product_value w =
     (case f32_times_32767 w of Finite s q e \<Rightarrow> Some (fval_rat s q e) | _ \<Rightarrow> None)"

definition trunc_toward_zero :: "rat \<Rightarrow> int" where
  "trunc_toward_zero x = (if x < 0 then - \<lfloor>- x\<rfloor> else \<lfloor>x\<rfloor>)"

text \<open>Reading the adapter's output back, as a client of the engine would: pairs of bytes, low byte first.\<close>

fun decode_int16_le :: "bytes \<Rightarrow> int16 list" where
  "decode_int16_le (b0 # b1 # bs) = (ucast b0 OR push_bit 8 (ucast b1)) # decode_int16_le bs"
| "decode_int16_le _ = []"

text \<open>
  One platform's conversion outside the range, used where a concrete instance is
  needed: the value is truncated to 32 bits and the low 16 bits are kept; what
  does not fit 32 bits, an infinity or a NaN gives 0.
\<close>

definition cvtt_low16 :: "fval \<Rightarrow> int16" where
  "cvtt_low16 x =
     (case x of
        Finite s m e \<Rightarrow>
          (let i = trunc_int s m e
           in if - (2 ^ 31) \<le> i \<and> i < 2 ^ 31 then word_of_int i else 0)
      | _ \<Rightarrow> 0)"

subsection \<open>Python strings, JSON values and the libraries the handler calls\<close>

text \<open>
  A Python \<^verbatim>\<open>str\<close> is a list of Unicode code points. The identifiers and the
  protocol constants of the source (\<^verbatim>\<open>"inprogress"\<close>, \<^verbatim>\<open>"listening"\<close>, ...) are
  ASCII and are kept as \<^typ>\<open>string\<close>.
\<close>

type_synonym unicode = "nat list"

definition ascii :: "string \<Rightarrow> unicode" where
  "ascii s = map of_char s"

text \<open>
  \<^verbatim>\<open>str.strip()\<close> without argument removes leading and trailing whitespace;
  \<open>isspace\<close> lists the code points Python counts as whitespace.
\<close>

definition isspace :: "nat \<Rightarrow> bool" where
  "isspace c \<longleftrightarrow>
     (9 \<le> c \<and> c \<le> 13) \<or> (28 \<le> c \<and> c \<le> 32) \<or> c = 133 \<or> c = 160 \<or> c = 5760 \<or>
     (8192 \<le> c \<and> c \<le> 8202) \<or> c = 8232 \<or> c = 8233 \<or> c = 8239 \<or> c = 8287 \<or> c = 12288"

definition strip :: "unicode \<Rightarrow> unicode" where
  "strip text = rev (dropWhile isspace (rev (dropWhile isspace text)))"

text \<open>
  The values \<^verbatim>\<open>json.loads\<close> returns. A float is its IEEE-754 double pattern; a
  \<^verbatim>\<open>dict\<close> is its list of entries.
\<close>

datatype json =
    JNull
  | JBool bool
  | JInt int
  | JFloat "64 word"
  | JStr unicode
  | JList "json list"
  | JDict "(unicode \<times> json) list"

text \<open>Python's truth value of an object, as the \<^verbatim>\<open>if\<close> statement takes it.\<close>

fun truthy :: "json \<Rightarrow> bool" where
  "truthy JNull = False"
| "truthy (JBool b) = b"
| "truthy (JInt i) = (i \<noteq> 0)"
| "truthy (JFloat w) = (take_bit 63 w \<noteq> 0)"
| "truthy (JStr s) = (s \<noteq> [])"
| "truthy (JList xs) = (xs \<noteq> [])"
| "truthy (JDict kvs) = (kvs \<noteq> [])"

text \<open>\<^verbatim>\<open>data.get(key)\<close> on a \<^verbatim>\<open>dict\<close> gives \<^verbatim>\<open>None\<close> for a missing key, and \<^verbatim>\<open>None\<close> is false.\<close>

definition get_truthy :: "(unicode \<times> json) list \<Rightarrow> unicode \<Rightarrow> bool" where
  "get_truthy kvs key = (case map_of kvs key of None \<Rightarrow> False | Some v \<Rightarrow> truthy v)"

text \<open>
  What the handler takes from outside the repository: \<^verbatim>\<open>json.loads\<close> (an error
  or a value for every text), and the platform's conversion of a float outside
  the \<^verbatim>\<open>int16\<close> range.
\<close>

record libs =
  json_loads :: "unicode \<Rightarrow> py_error + json"
  cast_oor :: "fval \<Rightarrow> int16"

subsection \<open>Outbound messages\<close>

text \<open>
  The dictionaries built by \<^verbatim>\<open>send_update_sync\<close>. The queue holds their
  \<^verbatim>\<open>json.dumps\<close> serialization; the model keeps the dictionary itself.
\<close>

record segment =
  seg_id :: string
  seg_type :: string
  seg_text :: unicode
  completed :: bool

record response =
  uid :: string
  segments :: "segment list"
  status :: string

text \<open>
  \<^verbatim>\<open>send_update_sync(segment_type, text, completed)\<close> in the session \<open>uid\<close>;
  \<open>new_id\<close> is the string \<^verbatim>\<open>str(uuid.uuid4())\<close> drawn by the call. The result is
  the message handed to \<^verbatim>\<open>loop.call_soon_threadsafe(message_queue.put_nowait, _)\<close>.
\<close>

definition send_update_sync :: "string \<Rightarrow> string \<Rightarrow> string \<Rightarrow> unicode \<Rightarrow> bool \<Rightarrow> response" where
  "send_update_sync uid' new_id segment_type text completed' =
     (let status' = (if completed' then ''transforming'' else ''listening'');
          segment = \<lparr>seg_id = new_id, seg_type = segment_type, seg_text = text,
                     completed = completed'\<rparr>
      in \<lparr>uid = uid', segments = [segment], status = status'\<rparr>)"

text \<open>The two callbacks: the message they schedule, if any.\<close>

definition on_realtime_update :: "string \<Rightarrow> string \<Rightarrow> unicode \<Rightarrow> response option" where
  "on_realtime_update uid' new_id text =
     (if strip text \<noteq> [] then Some (send_update_sync uid' new_id ''inprogress'' text False)
      else None)"

definition on_final_text_callback :: "string \<Rightarrow> string \<Rightarrow> unicode \<Rightarrow> response option" where
  "on_final_text_callback uid' new_id text =
     (if strip text \<noteq> [] then Some (send_update_sync uid' new_id ''transcribed'' text True)
      else None)"

subsection \<open>The session: handler, sender task and callbacks as one state machine\<close>

text \<open>
  The handler, the sender task and the event loop run on one thread and take
  turns at their \<^verbatim>\<open>await\<close>s; the callbacks run on threads of the engine and touch
  the session only through \<^verbatim>\<open>call_soon_threadsafe\<close>, which keeps the order of the
  calls. A run of the session is therefore a sequence of atomic steps, one per
  event below. What the engine does is not part of the repository: when it calls
  a callback and with which text, and what \<^verbatim>\<open>recorder.is_shutdown\<close> reads, are
  inputs of the model, and its methods \<^verbatim>\<open>feed_audio\<close>, \<^verbatim>\<open>stop\<close> and \<^verbatim>\<open>shutdown\<close>
  are recorded as calls and taken to return.
\<close>

datatype frame = Binary bytes | Text unicode

datatype level = INFO | WARNING

datatype log_msg =
    FinalTranscription unicode
  | EndOfStreamReceived
  | NonJsonText unicode
  | ConnectionClosedInfo
  | CleaningUp
  | RecorderLoopFinished

text \<open>The calls the handler makes on the recorder, the sender task and the recorder thread.\<close>

datatype call = Feed bytes | Stop | CancelSender | Shutdown | Join nat

text \<open>
  The sender task waits in \<^verbatim>\<open>message_queue.get()\<close>, or in \<^verbatim>\<open>websocket.send\<close>
  with the message it took, or has left its loop, or was cancelled.
\<close>

datatype sender_state = AwaitGet | AwaitSend response | Finished | Cancelled

text \<open>The handler is in its receive loop, or has left it (with the exception it raises, if any).\<close>

datatype handler_state = Receiving | Exited "py_error option"

record session =
  scheduled :: "response list"
  message_queue :: "response list"
  sent :: "response list"
  sender :: sender_state
  handler :: handler_state
  worker_running :: bool
  calls :: "call list"
  log :: "(level \<times> log_msg) list"

text \<open>The state after \<^verbatim>\<open>recorder_thread.start()\<close>, before the first message is awaited.\<close>

definition init :: session where
  "init = \<lparr>scheduled = [], message_queue = [], sent = [], sender = AwaitGet,
           handler = Receiving, worker_running = True, calls = [], log = []\<rparr>"

text \<open>
  The body of the receive loop for one message: the exception it raises, or the
  calls and log entries it makes.
\<close>

fun handle_message :: "libs \<Rightarrow> frame \<Rightarrow> py_error + (call list \<times> (level \<times> log_msg) list)" where
  "handle_message L (Binary message) =
     (case frombuffer message of
        Inl err \<Rightarrow> Inl err
      | Inr float32_array \<Rightarrow> Inr ([Feed (float32_to_int16 (cast_oor L) float32_array)], []))"
| "handle_message L (Text message) =
     (case json_loads L message of
        Inl JSONDecodeError \<Rightarrow> Inr ([], [(WARNING, NonJsonText message)])
      | Inl err \<Rightarrow> Inl err
      | Inr data \<Rightarrow>
          (case data of
             JDict kvs \<Rightarrow>
               (if get_truthy kvs (ascii ''EOS'')
                then Inr ([Stop], [(INFO, EndOfStreamReceived)])
                else Inr ([], []))
           | _ \<Rightarrow> Inl AttributeError))"

text \<open>
  The \<^verbatim>\<open>finally\<close> block. \<^verbatim>\<open>sender.cancel()\<close> has no effect on a task that is
  done; the block does not await, so the sender makes no step inside it.
\<close>

definition finally_block :: "session \<Rightarrow> session" where
  "finally_block s =
     s\<lparr>log := log s @ [(INFO, CleaningUp)],
       calls := calls s @ [CancelSender, Shutdown, Join 2],
       sender := (case sender s of Finished \<Rightarrow> Finished | _ \<Rightarrow> Cancelled)\<rparr>"

text \<open>How the iteration \<^verbatim>\<open>async for message in websocket\<close> ends.\<close>

datatype closing = ClosedOK | ClosedError | TaskCancelled

datatype event =
    Realtime string unicode
  | Final string unicode
  | LoopRun
  | QueueGet
  | SendDone
  | SendClosed
  | Recv frame
  | RecvEnd closing
  | WorkerTest bool

text \<open>
  One step of the session.
  \<^item> \<open>Realtime i t\<close>, \<open>Final i t\<close>: the engine calls \<^verbatim>\<open>on_realtime_update(t)\<close>, or
    \<^verbatim>\<open>recorder.text\<close> calls \<^verbatim>\<open>on_final_text_callback(t)\<close>; \<open>i\<close> is the identifier drawn.
  \<^item> \<open>LoopRun\<close>: the event loop runs the oldest scheduled \<^verbatim>\<open>put_nowait\<close>.
  \<^item> \<open>QueueGet\<close>: \<^verbatim>\<open>message_queue.get()\<close> returns in the sender task.
  \<^item> \<open>SendDone\<close>, \<open>SendClosed\<close>: \<^verbatim>\<open>websocket.send\<close> returns, or raises \<^verbatim>\<open>ConnectionClosed\<close>.
  \<^item> \<open>Recv f\<close>: the iteration yields the message \<open>f\<close>; \<open>RecvEnd c\<close>: it ends.
  \<^item> \<open>WorkerTest b\<close>: \<^verbatim>\<open>recorder_loop\<close> tests its condition and reads
    \<^verbatim>\<open>getattr(recorder, 'is_shutdown', False)\<close> as \<open>b\<close>.
  An event that cannot happen in the state it meets leaves the state as it is.
\<close>

fun step :: "libs \<Rightarrow> string \<Rightarrow> session \<Rightarrow> event \<Rightarrow> session" where
  "step L u s (Realtime i t) =
     (case on_realtime_update u i t of
        None \<Rightarrow> s
      | Some m \<Rightarrow> s\<lparr>scheduled := scheduled s @ [m]\<rparr>)"
| "step L u s (Final i t) =
     (case on_final_text_callback u i t of
        None \<Rightarrow> s
      | Some m \<Rightarrow> s\<lparr>log := log s @ [(INFO, FinalTranscription t)],
                      scheduled := scheduled s @ [m]\<rparr>)"
| "step L u s LoopRun =
     (case scheduled s of
        [] \<Rightarrow> s
      | m # ms \<Rightarrow> s\<lparr>scheduled := ms, message_queue := message_queue s @ [m]\<rparr>)"
| "step L u s QueueGet =
     (case (sender s, message_queue s) of
        (AwaitGet, m # ms) \<Rightarrow> s\<lparr>message_queue := ms, sender := AwaitSend m\<rparr>
      | _ \<Rightarrow> s)"
| "step L u s SendDone =
     (case sender s of
        AwaitSend m \<Rightarrow> s\<lparr>sent := sent s @ [m], sender := AwaitGet\<rparr>
      | _ \<Rightarrow> s)"
| "step L u s SendClosed =
     (case sender s of
        AwaitSend m \<Rightarrow> s\<lparr>sender := Finished\<rparr>
      | _ \<Rightarrow> s)"
| "step L u s (Recv f) =
     (case handler s of
        Receiving \<Rightarrow>
          (case handle_message L f of
             Inr (cs, ls) \<Rightarrow> s\<lparr>calls := calls s @ cs, log := log s @ ls\<rparr>
           | Inl err \<Rightarrow> (finally_block s)\<lparr>handler := Exited (Some err)\<rparr>)
      | Exited _ \<Rightarrow> s)"
| "step L u s (RecvEnd c) =
     (case handler s of
        Receiving \<Rightarrow>
          (case c of
             ClosedOK \<Rightarrow> (finally_block s)\<lparr>handler := Exited None\<rparr>
           | ClosedError \<Rightarrow>
               (finally_block (s\<lparr>log := log s @ [(INFO, ConnectionClosedInfo)]\<rparr>))
                 \<lparr>handler := Exited None\<rparr>
           | TaskCancelled \<Rightarrow> (finally_block s)\<lparr>handler := Exited (Some CancelledError)\<rparr>)
      | Exited _ \<Rightarrow> s)"
| "step L u s (WorkerTest b) =
     (if worker_running s \<and> b
      then s\<lparr>worker_running := False, log := log s @ [(INFO, RecorderLoopFinished)]\<rparr>
      else s)"

definition run :: "libs \<Rightarrow> string \<Rightarrow> event list \<Rightarrow> session" where
  "run L u tr = foldl (step L u) init tr"

text \<open>The messages the callbacks of a trace schedule, in the order of the calls.\<close>

fun pushed :: "string \<Rightarrow> event list \<Rightarrow> response list" where
  "pushed u [] = []"
| "pushed u (Realtime i t # tr) =
     (case on_realtime_update u i t of None \<Rightarrow> [] | Some m \<Rightarrow> [m]) @ pushed u tr"
| "pushed u (Final i t # tr) =
     (case on_final_text_callback u i t of None \<Rightarrow> [] | Some m \<Rightarrow> [m]) @ pushed u tr"
| "pushed u (_ # tr) = pushed u tr"

text \<open>
  A concrete instance of the libraries, for the examples: the values of
  \<^verbatim>\<open>json.loads\<close> on the texts the examples use, and the conversion
  \<open>cvtt_low16\<close>. Of the texts the table gives a decoding error, the examples use
  only \<^verbatim>\<open>hello\<close>.
\<close>

definition sample_loads :: "unicode \<Rightarrow> py_error + json" where
  \<open>sample_loads t =
     (if t = ascii ''{"EOS": true}'' then Inr (JDict [(ascii ''EOS'', JBool True)])
      else if t = ascii ''{"EOS": 1}'' then Inr (JDict [(ascii ''EOS'', JInt 1)])
      else if t = ascii ''{"a": 1}'' then Inr (JDict [(ascii ''a'', JInt 1)])
      else if t = ascii ''[]'' then Inr (JList [])
      else Inl JSONDecodeError)\<close>

definition sample_libs :: libs where
  "sample_libs = \<lparr>json_loads = sample_loads, cast_oor = cvtt_low16\<rparr>"

text \<open>
  The callbacks of one utterance (partial results, then the final one), and a
  schedule in which the event loop and the sender task then run \<open>n\<close> times each.
\<close>

definition utterance :: "(string \<times> unicode) list \<Rightarrow> string \<times> unicode \<Rightarrow> event list" where
  "utterance ps f = map (\<lambda>p. Realtime (fst p) (snd p)) ps @ [Final (fst f) (snd f)]"

definition deliver :: "nat \<Rightarrow> event list" where
  "deliver n = replicate n LoopRun @ concat (replicate n [QueueGet, SendDone])"

text \<open>A message whose processing raises nothing.\<close>

definition benign :: "libs \<Rightarrow> frame \<Rightarrow> bool" where
  "benign L f = (case handle_message L f of Inr _ \<Rightarrow> True | Inl _ \<Rightarrow> False)"

text \<open>An example: one partial result and the final result of an utterance, then delivered.\<close>

definition example_trace :: "event list" where
  "example_trace = utterance [(''id1'', ascii ''hi'')] (''id2'', ascii ''hi there'') @ deliver 2"

text \<open>The calls of the \<^verbatim>\<open>finally\<close> block, as opposed to those of the loop body.\<close>

fun teardown_call :: "call \<Rightarrow> bool" where
  "teardown_call (Feed _) = False"
| "teardown_call Stop = False"
| "teardown_call CancelSender = True"
| "teardown_call Shutdown = True"
| "teardown_call (Join _) = True"

text \<open>
  An example: the client sends \<^verbatim>\<open>{"EOS": true}\<close>, the engine produces a final
  text, which is delivered, and the client sends one more sample.
\<close>

definition eos_trace :: "event list" where
  \<open>eos_trace =
     [Recv (Text (ascii ''{"EOS": true}'')), Final ''id1'' (ascii ''hello''),
      LoopRun, QueueGet, SendDone, Recv (Binary [0, 0, 0x80, 0x3E])]\<close>


section \<open>The numeric conversion\<close>

subsection \<open>Rounding and truncation on integers\<close>

lemma rne_err:
  "\<bar>int (round_nearest_even M k) * 2 ^ k - int M\<bar> * 2 \<le> 2 ^ k"
proof -
  define q where "q = M div 2 ^ k"
  define r where "r = M mod 2 ^ k"
  have M: "M = q * 2 ^ k + r" unfolding q_def r_def using div_mult_mod_eq[of M "2^k"] by simp
  have r: "r < 2 ^ k" by (simp add: r_def)
  have iM: "int M = int q * 2 ^ k + int r" using M
    by (metis of_nat_add of_nat_mult of_nat_numeral of_nat_power)
  have ir: "int r < 2 ^ k" using r by (metis of_nat_less_iff of_nat_numeral of_nat_power)
  have c: "(2::nat) ^ k < 2 * r \<longleftrightarrow> (2::int) ^ k < 2 * int r"
    by (metis of_nat_less_iff of_nat_mult of_nat_numeral of_nat_power)
  have R: "round_nearest_even M k = (if 2 ^ k < 2 * r \<or> (2 * r = 2 ^ k \<and> odd q) then q + 1 else q)"
    by (simp add: round_nearest_even_def q_def r_def Let_def)
  show ?thesis
  proof (cases "2 ^ k < 2 * r \<or> (2 * r = 2 ^ k \<and> odd q)")
    case True
    then have "round_nearest_even M k = q + 1" using R by simp
    moreover have "(2::int) ^ k \<le> 2 * int r" using True c
      by (metis less_imp_le of_nat_mult of_nat_numeral of_nat_power order_refl)
    ultimately show ?thesis using iM ir by (simp add: algebra_simps)
  next
    case False
    then have "round_nearest_even M k = q" using R by simp
    moreover have "2 * int r \<le> (2::int) ^ k" using False c by linarith
    ultimately show ?thesis using iM ir by (simp add: algebra_simps)
  qed
qed

lemma decode_finite_bounds:
  "f32_decode w = Finite s m e \<Longrightarrow> m < 2 ^ 24 \<and> - 149 \<le> e \<and> e \<le> 104 \<and> (e = - 149 \<or> 2 ^ 23 \<le> m)"
proof -
  assume a: "f32_decode w = Finite s m e"
  have F: "unat (take_bit 23 w) < 2 ^ 23"
    using take_bit_nat_less_exp [of 23 "unat w"] by (simp add: unsigned_take_bit_eq)
  have E: "unat (take_bit 8 (drop_bit 23 w)) < 2 ^ 8"
    using take_bit_nat_less_exp [of 8 "unat (drop_bit 23 w)"] by (simp add: unsigned_take_bit_eq)
  have U: "uint (take_bit 8 (drop_bit 23 w)) = int (unat (take_bit 8 (drop_bit 23 w)))"
    by simp
  show ?thesis using a F E unfolding f32_decode_def Let_def
    by (auto simp del: of_nat_unat simp add: U split: if_splits)
qed

lemma unit_sample_bounds:
  assumes d: "f32_decode w = Finite s m e" and u: "in_unit_range w"
  shows "e < 0 \<and> m \<le> 2 ^ nat (- e)"
proof -
  from decode_finite_bounds [OF d] have b: "m < 2 ^ 24" "- 149 \<le> e" "e = - 149 \<or> 2 ^ 23 \<le> m" by auto
  from u d have v: "- 1 \<le> fval_rat s m e \<and> fval_rat s m e \<le> 1"
    by (simp add: in_unit_range_def sample_value_def)
  have neg: "e < 0"
  proof (rule ccontr)
    assume "\<not> e < 0"
    then have e0: "0 \<le> e" by simp
    with b have m: "2 ^ 23 \<le> m" by auto
    have "(1::rat) \<le> 2 ^ nat e" by simp
    moreover have "(2::rat) ^ 23 \<le> of_nat m" using m
      by (metis of_nat_le_iff of_nat_numeral of_nat_power)
    ultimately have "(2::rat) ^ 23 * 1 \<le> of_nat m * 2 ^ nat e"
      by (intro mult_mono) auto
    with v e0 show False by (auto simp: fval_rat_def split: if_splits)
  qed
  have "(of_nat m :: rat) / 2 ^ nat (- e) \<le> 1"
    using v neg by (auto simp: fval_rat_def split: if_splits)
  then have "(of_nat m :: rat) \<le> 2 ^ nat (- e)"
    by (simp add: divide_le_eq)
  then have "m \<le> 2 ^ nat (- e)"
    by (metis of_nat_le_iff of_nat_numeral of_nat_power)
  with neg show ?thesis by simp
qed

lemma times_round:
  assumes e: "e < 0" and m: "m \<le> 2 ^ nat (- e)"
  shows "\<exists>q j. f32_round s (m * 32767) e = Finite s q (- int j) \<and> 0 < j \<and> j \<le> nat (- e) \<and>
           \<bar>int q * 2 ^ (nat (- e) - j) - int m * 32767\<bar> * 2 \<le> 2 ^ (nat (- e) - j) \<and>
           (int q * 2 ^ (nat (- e) - j) = int m * 32767 \<or> 9 \<le> j)"
proof -
  define j0 where "j0 = nat (- e)"
  define M where "M = m * 32767"
  have j0pos: "0 < j0" and ej0: "e = - int j0" using e by (simp_all add: j0_def)
  have Mle: "M \<le> 32767 * 2 ^ j0" using m by (simp add: M_def j0_def)
  have "(32767::nat) * 2 ^ j0 < 2 ^ 15 * 2 ^ j0" by simp
  with Mle have "M < 2 ^ 15 * 2 ^ j0" by (rule le_less_trans)
  then have Mlt: "M < 2 ^ (15 + j0)" by (simp only: power_add)
  show ?thesis
  proof (cases "bitlen (int M) - 24 \<le> 0")
    case True
    then have "f32_round s (m * 32767) e = Finite s M (- int j0)"
      by (simp add: f32_round_def M_def ej0)
    then show ?thesis using j0pos
      by (intro exI [of _ M] exI [of _ j0]) (simp add: M_def j0_def)
  next
    case False
    define k where "k = bitlen (int M) - 24"
    define kn where "kn = nat k"
    from False have kpos: "0 < k" by (simp add: k_def)
    have "bitlen (int M) \<le> int (15 + j0)"
      using Mlt less_power_nat_iff_bitlen by blast
    then have kle: "k \<le> int j0 - 9" by (simp add: k_def)
    have knj: "kn + 9 \<le> j0" using kle kpos by (simp add: kn_def)
    define j where "j = j0 - kn"
    have j0: "j0 - j = kn" using knj by (simp add: j_def)
    define q where "q = round_nearest_even M kn"
    have ek: "e + k = - int j" using e knj kpos by (simp add: j_def j0_def kn_def)
    have j9: "9 \<le> j" "j \<le> j0" using knj by (simp_all add: j_def)
    have r: "f32_round s (m * 32767) e = Finite s q (- int j)"
      using kpos ek j9 unfolding f32_round_def Let_def M_def [symmetric] k_def [symmetric]
        kn_def [symmetric] q_def [symmetric]
      by simp
    have d: "\<bar>int q * 2 ^ kn - int M\<bar> * 2 \<le> 2 ^ kn" using rne_err [of M kn] by (simp add: q_def)
    show ?thesis using r j9 d
      by (intro exI [of _ q] exI [of _ j]) (simp add: M_def j0_def [symmetric] j0)
  qed
qed

lemma trunc_of_round:
  assumes j: "0 < j" "j \<le> j0"
    and d: "\<bar>int q * 2 ^ (j0 - j) - M\<bar> * 2 \<le> 2 ^ (j0 - j)"
  shows "\<bar>\<bar>trunc_int s q (- int j)\<bar> * 2 ^ j0 - M\<bar> < 2 ^ j0"
proof -
  have t: "\<bar>trunc_int s q (- int j)\<bar> = int q div 2 ^ j"
    using j by (simp add: trunc_int_def Let_def pos_imp_zdiv_nonneg_iff)
  define T where "T = int q div 2 ^ j"
  define u where "u = int q mod 2 ^ j"
  define A where "A = (2::int) ^ (j0 - j)"
  define B where "B = (2::int) ^ j"
  have Apos: "0 < A" and Bpos: "1 \<le> B" by (simp_all add: A_def B_def)
  have qTu: "int q = T * B + u" unfolding T_def u_def B_def
    using div_mult_mod_eq [of "int q" "2 ^ j"] by simp
  have u: "0 \<le> u" "u \<le> B - 1" using pos_mod_bound [of "2 ^ j" "int q"] by (simp_all add: u_def B_def)
  have uA: "u * A \<le> (B - 1) * A" using u Apos by (intro mult_right_mono) auto
  have uA0: "0 \<le> u * A" using u Apos by simp
  have AB: "A \<le> B * A" using Apos Bpos by simp
  define X where "X = B * A"
  define D where "D = int q * A - M"
  define U where "U = u * A"
  define Y where "Y = T * (B * A) - M"
  have "Y = D - U" by (simp add: Y_def D_def U_def qTu algebra_simps)
  moreover have "U \<le> X - A" using uA by (simp add: U_def X_def algebra_simps)
  moreover have "0 \<le> U" using uA0 by (simp add: U_def)
  moreover have "A \<le> X" using AB by (simp add: X_def)
  moreover have "\<bar>D\<bar> * 2 \<le> A" using d by (simp add: D_def A_def)
  ultimately have "\<bar>Y\<bar> < X" using Apos by linarith
  then have "\<bar>T * (B * A) - M\<bar> < B * A" by (simp add: Y_def X_def)
  moreover have "(2::int) ^ j0 = B * A" using j by (simp add: A_def B_def power_add [symmetric])
  ultimately have "\<bar>T * 2 ^ j0 - M\<bar> < 2 ^ j0" by simp
  with t show ?thesis by (simp add: T_def)
qed

subsection \<open>The same bounds on rationals\<close>

lemma rat_close:
  fixes a b :: int
  assumes "\<bar>a * 2 ^ n - b\<bar> < 2 ^ n"
  shows "\<bar>of_int a - (of_int b :: rat) / 2 ^ n\<bar> < 1"
proof -
  have "(of_int a :: rat) - of_int b / 2 ^ n = of_int (a * 2 ^ n - b) / 2 ^ n"
    by (simp add: field_simps)
  then have "\<bar>of_int a - (of_int b :: rat) / 2 ^ n\<bar> = \<bar>of_int (a * 2 ^ n - b) :: rat\<bar> / 2 ^ n"
    by (simp only: abs_divide power_abs abs_numeral)
  also have "\<dots> = of_int \<bar>a * 2 ^ n - b\<bar> / 2 ^ n"
    by (simp only: of_int_abs)
  also have "\<dots> < 1"
  proof -
    have "(of_int \<bar>a * 2 ^ n - b\<bar> :: rat) < of_int (2 ^ n)"
      using assms by (simp only: of_int_less_iff)
    then have "(of_int \<bar>a * 2 ^ n - b\<bar> :: rat) < 2 ^ n" by simp
    then show ?thesis by (simp only: divide_less_eq_1_pos zero_less_power zero_less_numeral)
  qed
  finally show ?thesis .
qed

lemma floor_nat_div_pow:
  "\<lfloor>(of_nat q :: rat) / 2 ^ j\<rfloor> = int q div 2 ^ j"
  using floor_divide_of_int_eq [of "int q" "2 ^ j", where ?'a = rat] by simp

lemma trunc_toward_zero_fval:
  assumes "0 < j"
  shows "trunc_toward_zero (fval_rat s q (- int j)) = trunc_int s q (- int j)"
proof -
  define x :: rat where "x = of_nat q / 2 ^ j"
  have x0: "0 \<le> x" by (simp add: x_def)
  have fl: "\<lfloor>x\<rfloor> = int q div 2 ^ j" by (simp add: x_def floor_nat_div_pow)
  have v: "fval_rat s q (- int j) = (if s then - x else x)"
    using assms by (simp add: fval_rat_def x_def)
  have t: "trunc_int s q (- int j) = (if s then - \<lfloor>x\<rfloor> else \<lfloor>x\<rfloor>)"
    using assms by (simp add: trunc_int_def Let_def fl)
  have "trunc_toward_zero (if s then - x else x) = (if s then - \<lfloor>x\<rfloor> else \<lfloor>x\<rfloor>)"
  proof (cases "x = 0")
    case True
    then show ?thesis by (simp add: trunc_toward_zero_def)
  next
    case False
    with x0 have "0 < x" by simp
    then show ?thesis by (simp add: trunc_toward_zero_def not_less less_imp_le)
  qed
  with v t show ?thesis by simp
qed

lemma rat_round_close:
  fixes q M :: int
  assumes j: "j \<le> j0"
    and d: "\<bar>q * 2 ^ (j0 - j) - M\<bar> * 2 \<le> 2 ^ (j0 - j)"
    and alt: "q * 2 ^ (j0 - j) = M \<or> 9 \<le> j"
  shows "\<bar>(of_int q :: rat) / 2 ^ j - of_int M / 2 ^ j0\<bar> \<le> 1 / 1024"
proof -
  define A :: int where "A = 2 ^ (j0 - j)"
  define D :: int where "D = q * A - M"
  have Apos: "0 < A" by (simp add: A_def)
  have pw: "(2::rat) ^ j0 = 2 ^ j * of_int A"
    using j by (simp add: A_def power_add [symmetric])
  have "(of_int q :: rat) / 2 ^ j = of_int (q * A) / 2 ^ j0"
    using Apos by (simp add: pw)
  then have e: "(of_int q :: rat) / 2 ^ j - of_int M / 2 ^ j0 = of_int D / 2 ^ j0"
    by (simp add: D_def diff_divide_distrib)
  show ?thesis
  proof (cases "D = 0")
    case True
    then show ?thesis by (simp add: e)
  next
    case False
    with alt have j9: "9 \<le> j" by (auto simp: D_def A_def)
    have "(2::rat) ^ 9 \<le> 2 ^ j" using j9 by (intro power_increasing) auto
    then have p9: "(512::rat) \<le> 2 ^ j" by simp
    have "\<bar>D\<bar> * 2 \<le> A" using d by (simp add: D_def A_def)
    then have "(of_int (\<bar>D\<bar> * 2) :: rat) \<le> of_int A" by (simp only: of_int_le_iff)
    then have dA: "\<bar>of_int D :: rat\<bar> * 2 \<le> of_int A" by simp
    have "\<bar>of_int D :: rat\<bar> * 1024 \<le> of_int A * 512" using dA by linarith
    also have "\<dots> \<le> of_int A * 2 ^ j" using p9 Apos by (intro mult_left_mono) auto
    finally have "\<bar>of_int D :: rat\<bar> * 1024 \<le> 2 ^ j0" by (simp add: pw mult.commute)
    then have "\<bar>of_int D :: rat\<bar> / 2 ^ j0 \<le> 1 / 1024"
      by (simp add: divide_le_eq)
    then show ?thesis by (simp add: e abs_divide)
  qed
qed

lemma unit_sample_conv:
  assumes u: "in_unit_range w"
  shows "\<exists>v p. sample_value w = Some v \<and> product_value w = Some p \<and>
           \<bar>p - v * 32767\<bar> \<le> 1 / 1024 \<and>
           \<bar>of_int (trunc_toward_zero p) - v * 32767\<bar> < 1 \<and>
           \<bar>trunc_toward_zero p\<bar> \<le> 32767 \<and>
           astype_int16 oor (f32_times_32767 w) = word_of_int (trunc_toward_zero p)"
proof -
  from u obtain s m e where dec: "f32_decode w = Finite s m e"
    by (auto simp: in_unit_range_def sample_value_def split: fval.splits)
  from unit_sample_bounds [OF dec u] have e: "e < 0" and m: "m \<le> 2 ^ nat (- e)" by auto
  define j0 where "j0 = nat (- e)"
  define M where "M = int m * 32767"
  from times_round [OF e m, of s] obtain q j
    where r: "f32_round s (m * 32767) e = Finite s q (- int j)"
      and j: "0 < j" "j \<le> j0"
      and d: "\<bar>int q * 2 ^ (j0 - j) - M\<bar> * 2 \<le> 2 ^ (j0 - j)"
      and alt: "int q * 2 ^ (j0 - j) = M \<or> 9 \<le> j"
    unfolding j0_def M_def by blast
  have prod: "f32_times_32767 w = Finite s q (- int j)"
    by (simp add: f32_times_32767_def dec r)
  define v where "v = fval_rat s m e"
  define p where "p = fval_rat s q (- int j)"
  define T where "T = trunc_int s q (- int j)"
  have sv: "sample_value w = Some v" by (simp add: sample_value_def dec v_def)
  have pv: "product_value w = Some p" by (simp add: product_value_def prod p_def)
  have Tp: "trunc_toward_zero p = T"
    unfolding p_def T_def by (rule trunc_toward_zero_fval [OF j(1)])
  have tr: "\<bar>\<bar>T\<bar> * 2 ^ j0 - M\<bar> < 2 ^ j0"
    unfolding T_def by (rule trunc_of_round [OF j d])
  have Mle: "M \<le> 32767 * 2 ^ j0"
  proof -
    have "int m \<le> int (2 ^ j0)" using m unfolding j0_def by (simp only: of_nat_le_iff)
    then show ?thesis by (simp add: M_def)
  qed
  have "\<bar>T\<bar> * 2 ^ j0 < 32768 * 2 ^ j0" using tr Mle by linarith
  then have Tr: "\<bar>T\<bar> \<le> 32767" by simp
  from Tr have Tr2: "- 32768 \<le> T \<and> T \<le> 32767" by linarith
  have cast: "astype_int16 oor (f32_times_32767 w) = word_of_int T"
    using Tr2 by (simp add: astype_int16_def prod T_def [symmetric] Let_def)
  have Tsign: "T = (if s then - \<bar>T\<bar> else \<bar>T\<bar>)"
    using j by (simp add: T_def trunc_int_def Let_def pos_imp_zdiv_nonneg_iff)
  have vM: "v * 32767 = (if s then - (of_int M / 2 ^ j0) else of_int M / 2 ^ j0)"
    using e by (simp add: v_def fval_rat_def M_def j0_def)
  have pq: "p = (if s then - (of_int (int q) / 2 ^ j) else of_int (int q) / 2 ^ j)"
    using j by (simp add: p_def fval_rat_def)
  have c1: "\<bar>(of_int \<bar>T\<bar> :: rat) - of_int M / 2 ^ j0\<bar> < 1"
    by (rule rat_close [OF tr])
  have c2: "\<bar>(of_int (int q) :: rat) / 2 ^ j - of_int M / 2 ^ j0\<bar> \<le> 1 / 1024"
    by (rule rat_round_close [OF j(2) d alt])
  have e1: "\<bar>(of_int T :: rat) - v * 32767\<bar> < 1"
  proof (cases s)
    case True
    then have "(of_int T :: rat) - v * 32767 = - (of_int \<bar>T\<bar> - of_int M / 2 ^ j0)"
      using Tsign vM by simp
    then show ?thesis using c1 by (simp only: abs_minus_cancel)
  next
    case False
    then have "(of_int T :: rat) - v * 32767 = of_int \<bar>T\<bar> - of_int M / 2 ^ j0"
      using Tsign vM by simp
    then show ?thesis using c1 by simp
  qed
  have e2: "\<bar>p - v * 32767\<bar> \<le> 1 / 1024"
  proof (cases s)
    case True
    then have "p - v * 32767 = - (of_int (int q) / 2 ^ j - of_int M / 2 ^ j0)"
      using pq vM by simp
    then show ?thesis using c2 by (simp only: abs_minus_cancel)
  next
    case False
    then have "p - v * 32767 = of_int (int q) / 2 ^ j - of_int M / 2 ^ j0"
      using pq vM by simp
    then show ?thesis using c2 by simp
  qed
  show ?thesis
    using sv pv e1 e2 Tr cast unfolding Tp [symmetric] by blast
qed

subsection \<open>Bytes and arrays\<close>

lemma int16_le_inverse: "decode_int16_le (int16_le v @ bs) = v # decode_int16_le bs"
proof -
  have "ucast (ucast v :: byte) OR push_bit 8 (ucast (ucast (drop_bit 8 v) :: byte)) = v"
    by (rule bit_word_eqI) (auto simp: bit_simps)
  then show ?thesis by (simp add: int16_le_def)
qed

lemma decode_int16_le_concat:
  "decode_int16_le (concat (map int16_le vs)) = vs"
  by (induction vs) (simp_all add: int16_le_inverse)

lemma float32_to_int16_decode:
  "decode_int16_le (float32_to_int16 oor a) = map (\<lambda>w. astype_int16 oor (f32_times_32767 w)) a"
  using decode_int16_le_concat [of "map (\<lambda>w. astype_int16 oor (f32_times_32767 w)) a"]
  by (simp add: float32_to_int16_def comp_def)

lemma sint_int16: "\<bar>t\<bar> \<le> 32767 \<Longrightarrow> sint (word_of_int t :: int16) = t"
  by (simp add: sint_sbintrunc' signed_take_bit_int_eq_self)

text \<open>
  Claim C2. For every array of samples that all lie in \<open>[-1, 1]\<close>, reading the
  adapter's output back as 16-bit signed integers (low byte first) gives one
  integer per sample, and that integer divided by 32767 differs from the sample
  by less than one quantization step \<open>1 / 32767\<close>.
\<close>

theorem roundtrip_within_one_step:
  assumes "\<forall>w \<in> set audio. in_unit_range w"
  shows "length (decode_int16_le (float32_to_int16 oor audio)) = length audio \<and>
         (\<forall>i < length audio. \<exists>v. sample_value (audio ! i) = Some v \<and>
            \<bar>of_int (sint (decode_int16_le (float32_to_int16 oor audio) ! i)) / 32767 - v\<bar> < 1 / 32767)"
proof (intro conjI allI impI)
  show "length (decode_int16_le (float32_to_int16 oor audio)) = length audio"
    by (simp add: float32_to_int16_decode)
next
  fix i assume i: "i < length audio"
  with assms have "in_unit_range (audio ! i)" by simp
  from unit_sample_conv [OF this, of oor] obtain v p
    where v: "sample_value (audio ! i) = Some v"
      and e: "\<bar>of_int (trunc_toward_zero p) - v * 32767\<bar> < 1"
      and r: "\<bar>trunc_toward_zero p\<bar> \<le> 32767"
      and c: "astype_int16 oor (f32_times_32767 (audio ! i)) = word_of_int (trunc_toward_zero p)"
    by blast
  have "sint (decode_int16_le (float32_to_int16 oor audio) ! i) = trunc_toward_zero p"
    using i c r by (simp add: float32_to_int16_decode sint_int16)
  moreover have "\<bar>(of_int (trunc_toward_zero p) :: rat) / 32767 - v\<bar> < 1 / 32767"
  proof -
    have "(of_int (trunc_toward_zero p) :: rat) / 32767 - v = (of_int (trunc_toward_zero p) - v * 32767) / 32767"
      by (simp add: diff_divide_distrib)
    then have "\<bar>(of_int (trunc_toward_zero p) :: rat) / 32767 - v\<bar>
        = \<bar>of_int (trunc_toward_zero p) - v * 32767\<bar> / 32767"
      by (simp only: abs_divide abs_numeral)
    also have "\<dots> < 1 / 32767" using e by (intro divide_strict_right_mono) simp_all
    finally show ?thesis .
  qed
  ultimately show "\<exists>v. sample_value (audio ! i) = Some v \<and>
            \<bar>of_int (sint (decode_int16_le (float32_to_int16 oor audio) ! i)) / 32767 - v\<bar> < 1 / 32767"
    using v by simp
qed

lemma sample_quarter: "in_unit_range 0x3E800000"
  by (simp add: in_unit_range_def sample_value_def f32_decode_def fval_rat_def Let_def)

lemma sample_quarter_value: "sample_value 0x3E800000 = Some (1 / 4)"
  by (simp add: in_unit_range_def sample_value_def f32_decode_def fval_rat_def Let_def)

lemma bitlen_eqI:
  assumes "0 < n" "2 ^ (n - 1) \<le> x" "x < 2 ^ n"
  shows "bitlen x = int n"
proof (rule antisym)
  show "bitlen x \<le> int n" using assms by (simp add: bitlen_le_iff_power)
  show "int n \<le> bitlen x" using assms by (simp add: bitlen_ge_iff_power)
qed

lemma bitlen_quarter: "bitlen 274869518336 = 38"
  using bitlen_eqI [of 38 274869518336] by simp

lemma product_quarter: "f32_times_32767 0x3E800000 = Finite False 16776704 (- 11)"
  by (simp add: f32_times_32767_def f32_decode_def f32_round_def
      round_nearest_even_def bitlen_quarter Let_def)

lemma product_value_quarter: "product_value 0x3E800000 = Some (32767 / 4)"
  by (simp add: product_value_def product_quarter fval_rat_def)

lemma sample_quarter_bytes: "float32_to_int16 oor [0x3E800000] = [0xFF, 0x1F]"
  by (simp add: float32_to_int16_def f32_times_32767_def f32_decode_def f32_round_def
      round_nearest_even_def astype_int16_def trunc_int_def int16_le_def bitlen_quarter Let_def)

text \<open>
  Claim C1, as amended. For every array of samples in \<open>[-1, 1]\<close> the adapter
  writes, per sample and low byte first, the 16-bit signed integer obtained by
  discarding the fraction of the single-precision product of the sample with
  32767 (truncation towards zero, not rounding to the nearest integer). The
  product differs from \<open>s \<sqdot> 32767\<close> by at most \<open>2\<^sup>-\<^sup>1\<^sup>0\<close>, the integer lies in
  \<open>[-32767, 32767]\<close> and is stored without wrap-around. The conversion is a
  total function: it has no raising branch.
\<close>

theorem adapter_truncates:
  assumes "\<forall>w \<in> set audio. in_unit_range w"
  shows "\<exists>ts. length ts = length audio \<and>
           float32_to_int16 oor audio = concat (map (\<lambda>t. int16_le (word_of_int t)) ts) \<and>
           (\<forall>i < length audio. \<exists>v p.
              sample_value (audio ! i) = Some v \<and> product_value (audio ! i) = Some p \<and>
              \<bar>p - v * 32767\<bar> \<le> 1 / 1024 \<and>
              ts ! i = trunc_toward_zero p \<and> \<bar>ts ! i\<bar> \<le> 32767 \<and>
              sint (word_of_int (ts ! i) :: int16) = ts ! i)"
using assms proof (induction audio)
  case Nil
  then show ?case by (simp add: float32_to_int16_def)
next
  case (Cons w ws)
  then obtain ts where ts: "length ts = length ws"
      "float32_to_int16 oor ws = concat (map (\<lambda>t. int16_le (word_of_int t)) ts)"
      "\<forall>i < length ws. \<exists>v p.
              sample_value (ws ! i) = Some v \<and> product_value (ws ! i) = Some p \<and>
              \<bar>p - v * 32767\<bar> \<le> 1 / 1024 \<and>
              ts ! i = trunc_toward_zero p \<and> \<bar>ts ! i\<bar> \<le> 32767 \<and>
              sint (word_of_int (ts ! i) :: int16) = ts ! i"
    by auto
  from Cons.prems have "in_unit_range w" by simp
  from unit_sample_conv [OF this, of oor] obtain v p
    where vp: "sample_value w = Some v" "product_value w = Some p"
      "\<bar>p - v * 32767\<bar> \<le> 1 / 1024" "\<bar>trunc_toward_zero p\<bar> \<le> 32767"
      "astype_int16 oor (f32_times_32767 w) = word_of_int (trunc_toward_zero p)"
    by blast
  let ?ts = "trunc_toward_zero p # ts"
  have "length ?ts = length (w # ws)" using ts by simp
  moreover have "float32_to_int16 oor (w # ws) = concat (map (\<lambda>t. int16_le (word_of_int t)) ?ts)"
    using ts(2) vp(5) by (simp add: float32_to_int16_def)
  moreover have "\<forall>i < length (w # ws). \<exists>v p.
              sample_value ((w # ws) ! i) = Some v \<and> product_value ((w # ws) ! i) = Some p \<and>
              \<bar>p - v * 32767\<bar> \<le> 1 / 1024 \<and>
              ?ts ! i = trunc_toward_zero p \<and> \<bar>?ts ! i\<bar> \<le> 32767 \<and>
              sint (word_of_int (?ts ! i) :: int16) = ?ts ! i"
  proof (intro allI impI)
    fix i assume "i < length (w # ws)"
    show "\<exists>v p.
              sample_value ((w # ws) ! i) = Some v \<and> product_value ((w # ws) ! i) = Some p \<and>
              \<bar>p - v * 32767\<bar> \<le> 1 / 1024 \<and>
              ?ts ! i = trunc_toward_zero p \<and> \<bar>?ts ! i\<bar> \<le> 32767 \<and>
              sint (word_of_int (?ts ! i) :: int16) = ?ts ! i"
    proof (cases i)
      case 0
      then show ?thesis using vp sint_int16 [OF vp(4)] by simp
    next
      case (Suc n)
      with \<open>i < length (w # ws)\<close> have "n < length ws" by simp
      with ts(3) Suc show ?thesis by simp
    qed
  qed
  ultimately show ?case by blast
qed

lemma round_quarter: "round (1 / 4 * 32767 :: rat) = 8192"
proof -
  have "\<lfloor>32769 / 4 :: rat\<rfloor> = 8192" by (rule floor_unique) simp_all
  then show ?thesis by (simp add: round_def)
qed

text \<open>
  The claim as stated fails at the sample \<open>0.25\<close>: the product is \<open>8191.75\<close>, the
  adapter writes \<open>8191\<close>, rounding would give \<open>8192\<close>.
\<close>

theorem adapter_rounds_counterexample:
  "in_unit_range 0x3E800000 \<and> sample_value 0x3E800000 = Some (1 / 4) \<and>
   float32_to_int16 cvtt_low16 [0x3E800000] = int16_le 8191 \<and>
   round (1 / 4 * 32767 :: rat) = 8192 \<and>
   int16_le 8191 \<noteq> int16_le 8192"
  using round_quarter
  by (simp add: sample_quarter sample_quarter_value sample_quarter_bytes int16_le_def)

lemma trunc_quarter: "trunc_toward_zero (32767 / 4) = 8191"
proof -
  have "\<lfloor>32767 / 4 :: rat\<rfloor> = 8191" by (rule floor_unique) simp_all
  then show ?thesis by (simp add: trunc_toward_zero_def)
qed

theorem adapter_truncates_witness:
  "in_unit_range 0x3E800000 \<and> product_value 0x3E800000 = Some (32767 / 4) \<and>
   float32_to_int16 cvtt_low16 [0x3E800000] = int16_le (word_of_int (trunc_toward_zero (32767 / 4))) \<and>
   trunc_toward_zero (32767 / 4) = 8191"
proof -
  have h: "\<forall>w \<in> set [0x3E800000]. in_unit_range w" by (simp add: sample_quarter)
  from adapter_truncates [OF h, of cvtt_low16] obtain ts v p
    where ts: "length ts = 1"
      "float32_to_int16 cvtt_low16 [0x3E800000] = concat (map (\<lambda>t. int16_le (word_of_int t)) ts)"
      "product_value 0x3E800000 = Some p" "ts ! 0 = trunc_toward_zero p"
    by fastforce
  from ts(1) obtain t where t: "ts = [t]" by (cases ts) auto
  from ts(3) have p: "p = 32767 / 4" by (simp add: product_value_quarter)
  show ?thesis using ts(2,4) t p
    by (simp add: sample_quarter product_value_quarter trunc_quarter)
qed

theorem roundtrip_within_one_step_witness:
  "in_unit_range 0x3E800000 \<and> sample_value 0x3E800000 = Some (1 / 4) \<and>
   \<bar>of_int (sint (decode_int16_le (float32_to_int16 cvtt_low16 [0x3E800000]) ! 0)) / 32767 - 1 / 4 :: rat\<bar>
     < 1 / 32767"
proof -
  have h: "\<forall>w \<in> set [0x3E800000]. in_unit_range w" by (simp add: sample_quarter)
  from roundtrip_within_one_step [OF h, of cvtt_low16] obtain v
    where "sample_value 0x3E800000 = Some v"
      "\<bar>of_int (sint (decode_int16_le (float32_to_int16 cvtt_low16 [0x3E800000]) ! 0)) / 32767 - v\<bar>
         < 1 / 32767"
    by fastforce
  moreover from this have "v = 1 / 4" by (simp add: sample_quarter_value)
  ultimately show ?thesis using sample_quarter by blast
qed

section \<open>The session\<close>

subsection \<open>Traces and whitespace\<close>

lemma ascii_simps: "ascii [] = []" "ascii (c # cs) = of_char c # ascii cs"
  by (simp_all add: ascii_def)

lemma run_Nil: "run L u [] = init"
  by (simp add: run_def)

lemma run_snoc: "run L u (tr @ [e]) = step L u (run L u tr) e"
  by (simp add: run_def)

lemma pushed_append: "pushed u (tr @ tr') = pushed u tr @ pushed u tr'"
  by (induction u tr rule: pushed.induct) simp_all

lemma strip_empty_iff: "strip t = [] \<longleftrightarrow> (\<forall>c \<in> set t. isspace c)"
proof -
  have "strip t = [] \<longleftrightarrow> (\<forall>c \<in> set (dropWhile isspace t). isspace c)"
    by (simp add: strip_def dropWhile_eq_Nil_conv)
  also have "\<dots> \<longleftrightarrow> (\<forall>c \<in> set t. isspace c)"
  proof
    assume a: "\<forall>c \<in> set (dropWhile isspace t). isspace c"
    have "set t = set (takeWhile isspace t) \<union> set (dropWhile isspace t)"
      by (metis set_append takeWhile_dropWhile_id)
    with a show "\<forall>c \<in> set t. isspace c" by (auto dest: set_takeWhileD)
  next
    assume "\<forall>c \<in> set t. isspace c"
    then show "\<forall>c \<in> set (dropWhile isspace t). isspace c" by (auto dest: set_dropWhileD)
  qed
  finally show ?thesis .
qed

subsection \<open>Nothing is reordered, duplicated or invented on the way to the transport\<close>

text \<open>
  At every moment the messages written, then the one the sender holds, then the
  queue, then the callbacks still scheduled on the event loop are together the
  messages the callbacks produced, in the order of the calls. A message leaves
  this sequence only when the sender stops while it holds one.
\<close>

lemma step_conservation:
  assumes inv: "sent s @ lost @ message_queue s @ scheduled s = P"
    "sender s = AwaitGet \<longrightarrow> lost = []"
    "\<forall>m. sender s = AwaitSend m \<longrightarrow> lost = [m]"
  shows "\<exists>lost'. sent (step L u s e) @ lost' @ message_queue (step L u s e) @ scheduled (step L u s e)
             = P @ pushed u [e] \<and>
          (sender (step L u s e) = AwaitGet \<longrightarrow> lost' = []) \<and>
          (\<forall>m. sender (step L u s e) = AwaitSend m \<longrightarrow> lost' = [m])"
proof (cases e)
  case (Realtime i t)
  then show ?thesis
    using inv by (intro exI [of _ lost]) (auto split: option.splits simp flip: inv(1))
next
  case (Final i t)
  then show ?thesis
    using inv by (intro exI [of _ lost]) (auto split: option.splits simp flip: inv(1))
next
  case LoopRun
  then show ?thesis
    using inv by (intro exI [of _ lost]) (auto split: list.splits simp flip: inv(1))
next
  case QueueGet
  then show ?thesis
    using inv by (cases "sender s"; cases "message_queue s") (auto simp flip: inv(1))
next
  case SendDone
  then show ?thesis
    using inv by (cases "sender s") (auto simp flip: inv(1))
next
  case SendClosed
  then show ?thesis
    using inv by (cases "sender s") (auto simp flip: inv(1))
next
  case (Recv f)
  then show ?thesis
    using inv
    by (intro exI [of _ lost])
      (auto simp: finally_block_def split: handler_state.splits sum.splits sender_state.splits
        simp flip: inv(1))
next
  case (RecvEnd c)
  then show ?thesis
    using inv
    by (intro exI [of _ lost])
      (auto simp: finally_block_def split: handler_state.splits closing.splits sender_state.splits
        simp flip: inv(1))
next
  case (WorkerTest b)
  then show ?thesis
    using inv by (intro exI [of _ lost]) (auto simp flip: inv(1))
qed

lemma run_conservation:
  "\<exists>lost. sent (run L u tr) @ lost @ message_queue (run L u tr) @ scheduled (run L u tr) = pushed u tr \<and>
          (sender (run L u tr) = AwaitGet \<longrightarrow> lost = []) \<and>
          (\<forall>m. sender (run L u tr) = AwaitSend m \<longrightarrow> lost = [m])"
proof (induction tr rule: rev_induct)
  case Nil
  then show ?case by (simp add: run_Nil init_def)
next
  case (snoc e tr)
  then obtain lost where
    "sent (run L u tr) @ lost @ message_queue (run L u tr) @ scheduled (run L u tr) = pushed u tr"
    "sender (run L u tr) = AwaitGet \<longrightarrow> lost = []"
    "\<forall>m. sender (run L u tr) = AwaitSend m \<longrightarrow> lost = [m]"
    by blast
  from step_conservation [OF this, of L u e] show ?case
    by (simp only: run_snoc pushed_append)
qed

lemma sent_subset_pushed: "set (sent (run L u tr)) \<subseteq> set (pushed u tr)"
proof -
  from run_conservation [of L u tr] obtain lost where
    "sent (run L u tr) @ lost @ message_queue (run L u tr) @ scheduled (run L u tr) = pushed u tr"
    by blast
  then have "set (pushed u tr) = set (sent (run L u tr) @ lost @ message_queue (run L u tr) @ scheduled (run L u tr))"
    by simp
  then show ?thesis by auto
qed

lemma queued_subset_pushed:
  "set (message_queue (run L u tr)) \<union> set (scheduled (run L u tr)) \<subseteq> set (pushed u tr)"
proof -
  from run_conservation [of L u tr] obtain lost where
    "sent (run L u tr) @ lost @ message_queue (run L u tr) @ scheduled (run L u tr) = pushed u tr"
    by blast
  then have "set (pushed u tr) = set (sent (run L u tr) @ lost @ message_queue (run L u tr) @ scheduled (run L u tr))"
    by simp
  then show ?thesis by auto
qed

lemma pushed_cases:
  assumes "m \<in> set (pushed u tr)"
  shows "(\<exists>i t. strip t \<noteq> [] \<and> m = send_update_sync u i ''inprogress'' t False) \<or>
         (\<exists>i t. strip t \<noteq> [] \<and> m = send_update_sync u i ''transcribed'' t True)"
  using assms
  by (induction u tr rule: pushed.induct)
    (auto simp: on_realtime_update_def on_final_text_callback_def split: if_splits)

subsection \<open>Delivery\<close>

lemma run_append: "run L u (tr @ tr') = foldl (step L u) (run L u tr) tr'"
  by (simp add: run_def)

lemma loop_runs:
  "foldl (step L u) s (replicate n LoopRun) =
     s\<lparr>scheduled := drop n (scheduled s), message_queue := message_queue s @ take n (scheduled s)\<rparr>"
proof (induction n arbitrary: s)
  case 0
  then show ?case by simp
next
  case (Suc n)
  show ?case
  proof (cases "scheduled s")
    case Nil
    then show ?thesis using Suc [of s] by simp
  next
    case (Cons m ms)
    then show ?thesis
      using Suc [of "s\<lparr>scheduled := ms, message_queue := message_queue s @ [m]\<rparr>"] by simp
  qed
qed

lemma sender_runs:
  assumes "sender s = AwaitGet"
  shows "foldl (step L u) s (concat (replicate n [QueueGet, SendDone])) =
     s\<lparr>message_queue := drop n (message_queue s), sent := sent s @ take n (message_queue s)\<rparr>"
  using assms
proof (induction n arbitrary: s)
  case 0
  then show ?case by simp
next
  case (Suc n)
  show ?case
  proof (cases "message_queue s")
    case Nil
    then show ?thesis using Suc.IH [of s] Suc.prems by simp
  next
    case (Cons m ms)
    then show ?thesis
      using Suc.IH [of "s\<lparr>message_queue := ms, sent := sent s @ [m], sender := AwaitGet\<rparr>"] Suc.prems
      by simp
  qed
qed

lemma deliver_all:
  assumes "sender s = AwaitGet" "length (message_queue s) + length (scheduled s) \<le> n"
  shows "foldl (step L u) s (deliver n) =
           s\<lparr>scheduled := [], message_queue := [], sent := sent s @ message_queue s @ scheduled s\<rparr>"
  using assms by (simp add: deliver_def loop_runs sender_runs)

lemma callbacks_only:
  assumes "\<forall>e \<in> set tr. (\<exists>i t. e = Realtime i t) \<or> (\<exists>i t. e = Final i t)"
  shows "sent (run L u tr) = [] \<and> message_queue (run L u tr) = [] \<and> sender (run L u tr) = AwaitGet"
  using assms
proof (induction tr rule: rev_induct)
  case Nil
  then show ?case by (simp add: run_Nil init_def)
next
  case (snoc e tr)
  then show ?case by (auto simp: run_snoc split: option.splits)
qed

lemma utterance_delivered:
  "sent (run L u (utterance ps f @ deliver (Suc (length ps)))) = pushed u (utterance ps f)"
proof -
  define s where "s = run L u (utterance ps f)"
  have cb: "sent s = [] \<and> message_queue s = [] \<and> sender s = AwaitGet"
    unfolding s_def by (rule callbacks_only) (auto simp: utterance_def)
  from run_conservation [of L u "utterance ps f"] cb
  have sch: "scheduled s = pushed u (utterance ps f)" by (auto simp: s_def)
  have "length (pushed u tr) \<le> length tr" for tr
    by (induction u tr rule: pushed.induct) (auto split: option.splits)
  from this [of "utterance ps f"] have "length (scheduled s) \<le> Suc (length ps)"
    by (simp add: sch utterance_def)
  with cb have "foldl (step L u) s (deliver (Suc (length ps))) =
           s\<lparr>scheduled := [], message_queue := [], sent := sent s @ message_queue s @ scheduled s\<rparr>"
    by (intro deliver_all) simp_all
  then show ?thesis using cb sch by (simp add: run_append s_def [symmetric])
qed

lemma utterance_pushed:
  assumes "\<forall>p \<in> set ps. strip (snd p) \<noteq> []" and "strip (snd f) \<noteq> []"
  shows "pushed u (utterance ps f)
           = map (\<lambda>p. send_update_sync u (fst p) ''inprogress'' (snd p) False) ps
             @ [send_update_sync u (fst f) ''transcribed'' (snd f) True]"
proof -
  have "pushed u (map (\<lambda>p. Realtime (fst p) (snd p)) ps)
          = map (\<lambda>p. send_update_sync u (fst p) ''inprogress'' (snd p) False) ps"
    using assms(1) by (induction ps) (simp_all add: on_realtime_update_def)
  then show ?thesis
    using assms(2) by (simp add: utterance_def pushed_append on_final_text_callback_def)
qed

text \<open>
  Claim C3. In every run of a session the messages written to the transport are
  an initial part of the messages the callbacks pushed, in the order of the
  pushes; once the sender waits on an empty queue and nothing is scheduled, they
  are exactly the pushed messages. In particular, after the partial callbacks
  \<open>p\<^sub>1 \<dots> p\<^sub>n\<close> of an utterance and its final callback, once the event loop and
  the sender have run \<open>n + 1\<close> times, the transport holds what these callbacks
  pushed, in their order: when no text is blank, the messages of \<open>p\<^sub>1 \<dots> p\<^sub>n\<close> and
  then the final message.
\<close>

theorem delivery_preserves_push_order:
  "prefix (sent (run L u tr)) (pushed u tr) \<and>
   (sender (run L u tr) = AwaitGet \<and> message_queue (run L u tr) = [] \<and> scheduled (run L u tr) = []
      \<longrightarrow> sent (run L u tr) = pushed u tr) \<and>
   sent (run L u (utterance ps f @ deliver (Suc (length ps)))) = pushed u (utterance ps f) \<and>
   ((\<forall>p \<in> set ps. strip (snd p) \<noteq> []) \<and> strip (snd f) \<noteq> [] \<longrightarrow>
      sent (run L u (utterance ps f @ deliver (Suc (length ps))))
        = map (\<lambda>p. send_update_sync u (fst p) ''inprogress'' (snd p) False) ps
          @ [send_update_sync u (fst f) ''transcribed'' (snd f) True])"
proof -
  from run_conservation [of L u tr] obtain lost where inv:
    "sent (run L u tr) @ lost @ message_queue (run L u tr) @ scheduled (run L u tr) = pushed u tr"
    "sender (run L u tr) = AwaitGet \<longrightarrow> lost = []"
    by blast
  have "prefix (sent (run L u tr)) (pushed u tr)"
    using inv(1) by (metis prefixI)
  moreover have "sender (run L u tr) = AwaitGet \<and> message_queue (run L u tr) = [] \<and> scheduled (run L u tr) = []
      \<longrightarrow> sent (run L u tr) = pushed u tr"
    using inv by auto
  moreover have "(\<forall>p \<in> set ps. strip (snd p) \<noteq> []) \<and> strip (snd f) \<noteq> [] \<longrightarrow>
      sent (run L u (utterance ps f @ deliver (Suc (length ps))))
        = map (\<lambda>p. send_update_sync u (fst p) ''inprogress'' (snd p) False) ps
          @ [send_update_sync u (fst f) ''transcribed'' (snd f) True]"
    using utterance_pushed [of ps f u] by (simp add: utterance_delivered)
  ultimately show ?thesis using utterance_delivered by blast
qed

lemma example_trace_eq:
  "example_trace = [Realtime ''id1'' (ascii ''hi''), Final ''id2'' (ascii ''hi there''),
     LoopRun, LoopRun, QueueGet, SendDone, QueueGet, SendDone]"
  by (simp add: example_trace_def utterance_def deliver_def numeral_2_eq_2)

lemma example_strip: "strip (ascii ''hi'') \<noteq> []" "strip (ascii ''hi there'') \<noteq> []"
  by (simp_all add: strip_def isspace_def ascii_simps)

lemma example_pushed:
  "pushed ''peer'' example_trace =
     [send_update_sync ''peer'' ''id1'' ''inprogress'' (ascii ''hi'') False,
      send_update_sync ''peer'' ''id2'' ''transcribed'' (ascii ''hi there'') True]"
  by (simp add: example_trace_eq on_realtime_update_def on_final_text_callback_def example_strip)

lemma example_run:
  "run L ''peer'' example_trace =
     init\<lparr>sent := [send_update_sync ''peer'' ''id1'' ''inprogress'' (ascii ''hi'') False,
                   send_update_sync ''peer'' ''id2'' ''transcribed'' (ascii ''hi there'') True],
          log := [(INFO, FinalTranscription (ascii ''hi there''))]\<rparr>"
  by (simp add: example_trace_eq run_def init_def on_realtime_update_def on_final_text_callback_def
      example_strip)

theorem delivery_preserves_push_order_witness:
  "sender (run sample_libs ''peer'' example_trace) = AwaitGet \<and>
   message_queue (run sample_libs ''peer'' example_trace) = [] \<and>
   scheduled (run sample_libs ''peer'' example_trace) = [] \<and>
   sent (run sample_libs ''peer'' example_trace) =
     [send_update_sync ''peer'' ''id1'' ''inprogress'' (ascii ''hi'') False,
      send_update_sync ''peer'' ''id2'' ''transcribed'' (ascii ''hi there'') True]"
proof -
  have h: "sender (run sample_libs ''peer'' example_trace) = AwaitGet \<and>
      message_queue (run sample_libs ''peer'' example_trace) = [] \<and>
      scheduled (run sample_libs ''peer'' example_trace) = []"
    by (simp add: example_run init_def)
  from delivery_preserves_push_order [of sample_libs "''peer''" example_trace] h
  have "sent (run sample_libs ''peer'' example_trace) = pushed ''peer'' example_trace"
    by blast
  with h show ?thesis by (simp only: example_pushed)
qed

text \<open>
  Claim C8. Every message produced by a callback, and so every message scheduled,
  queued or written in a run, carries the session's identifier and exactly one
  segment; the segment is completed iff its type is \<^verbatim>\<open>"transcribed"\<close> (and is of
  type \<^verbatim>\<open>"inprogress"\<close> otherwise), and the status is \<^verbatim>\<open>"transforming"\<close> when the
  segment is completed and \<^verbatim>\<open>"listening"\<close> when it is not.
\<close>

theorem outbound_message_shape:
  "\<forall>m \<in> set (pushed u tr) \<union> set (sent (run L u tr)) \<union> set (message_queue (run L u tr))
        \<union> set (scheduled (run L u tr)).
     uid m = u \<and>
     (\<exists>seg. segments m = [seg] \<and>
        (completed seg \<longleftrightarrow> seg_type seg = ''transcribed'') \<and>
        (\<not> completed seg \<longleftrightarrow> seg_type seg = ''inprogress'') \<and>
        status m = (if completed seg then ''transforming'' else ''listening''))"
proof
  fix m
  assume "m \<in> set (pushed u tr) \<union> set (sent (run L u tr)) \<union> set (message_queue (run L u tr))
        \<union> set (scheduled (run L u tr))"
  then have "m \<in> set (pushed u tr)"
    using sent_subset_pushed [of L u tr] queued_subset_pushed [of L u tr] by blast
  from pushed_cases [OF this]
  show "uid m = u \<and>
     (\<exists>seg. segments m = [seg] \<and>
        (completed seg \<longleftrightarrow> seg_type seg = ''transcribed'') \<and>
        (\<not> completed seg \<longleftrightarrow> seg_type seg = ''inprogress'') \<and>
        status m = (if completed seg then ''transforming'' else ''listening''))"
    by (auto simp: send_update_sync_def)
qed

theorem outbound_message_shape_witness:
  "send_update_sync ''peer'' ''id2'' ''transcribed'' (ascii ''hi there'') True
     \<in> set (sent (run sample_libs ''peer'' example_trace)) \<and>
   uid (send_update_sync ''peer'' ''id2'' ''transcribed'' (ascii ''hi there'') True) = ''peer'' \<and>
   (\<exists>seg. segments (send_update_sync ''peer'' ''id2'' ''transcribed'' (ascii ''hi there'') True) = [seg] \<and>
      completed seg \<and> seg_type seg = ''transcribed'' \<and>
      status (send_update_sync ''peer'' ''id2'' ''transcribed'' (ascii ''hi there'') True) = ''transforming'')"
proof -
  let ?m = "send_update_sync ''peer'' ''id2'' ''transcribed'' (ascii ''hi there'') True"
  have h: "?m \<in> set (sent (run sample_libs ''peer'' example_trace))"
    by (simp add: example_run init_def)
  then have "?m \<in> set (pushed ''peer'' example_trace) \<union> set (sent (run sample_libs ''peer'' example_trace))
      \<union> set (message_queue (run sample_libs ''peer'' example_trace))
      \<union> set (scheduled (run sample_libs ''peer'' example_trace))"
    by blast
  from outbound_message_shape [rule_format, OF this] obtain seg where
    "uid ?m = ''peer''" "segments ?m = [seg]" "completed seg \<longleftrightarrow> seg_type seg = ''transcribed''"
    "status ?m = (if completed seg then ''transforming'' else ''listening'')"
    by blast
  moreover from this have "completed seg" by (auto simp: send_update_sync_def)
  ultimately show ?thesis using h by auto
qed

text \<open>
  Claim C9. A partial or final callback whose text is empty or all whitespace
  leaves the session as it is: nothing is scheduled for the queue. Hence the text
  of every segment written to the transport has a character that is not
  whitespace.
\<close>

theorem blank_text_not_queued:
  "((\<forall>c \<in> set t. isspace c) \<longrightarrow> step L u s (Realtime i t) = s \<and> step L u s (Final i t) = s) \<and>
   (\<forall>m \<in> set (sent (run L u tr)). \<forall>seg \<in> set (segments m). \<exists>c \<in> set (seg_text seg). \<not> isspace c)"
proof (intro conjI impI ballI)
  assume "\<forall>c \<in> set t. isspace c"
  then have "strip t = []" by (simp add: strip_empty_iff)
  then show "step L u s (Realtime i t) = s" "step L u s (Final i t) = s"
    by (simp_all add: on_realtime_update_def on_final_text_callback_def)
next
  fix m seg
  assume "m \<in> set (sent (run L u tr))" and seg: "seg \<in> set (segments m)"
  then have "m \<in> set (pushed u tr)" using sent_subset_pushed by blast
  from pushed_cases [OF this] seg obtain t where "strip t \<noteq> []" "seg_text seg = t"
    by (auto simp: send_update_sync_def)
  then show "\<exists>c \<in> set (seg_text seg). \<not> isspace c"
    by (auto simp: strip_empty_iff)
qed

theorem blank_text_not_queued_witness:
  "isspace 32 \<and> isspace 9 \<and>
   step sample_libs ''peer'' init (Realtime ''id1'' [32, 9]) = init \<and>
   step sample_libs ''peer'' init (Final ''id1'' [32, 9]) = init \<and>
   send_update_sync ''peer'' ''id1'' ''inprogress'' (ascii ''hi'') False
     \<in> set (sent (run sample_libs ''peer'' example_trace)) \<and>
   (\<exists>c \<in> set (ascii ''hi''). \<not> isspace c)"
proof -
  let ?m = "send_update_sync ''peer'' ''id1'' ''inprogress'' (ascii ''hi'') False"
  have sp: "isspace 32" "isspace 9" by (simp_all add: isspace_def)
  then have b: "\<forall>c \<in> set [32, 9]. isspace c" by simp
  have h: "?m \<in> set (sent (run sample_libs ''peer'' example_trace))"
    by (simp add: example_run init_def)
  have s: "\<lparr>seg_id = ''id1'', seg_type = ''inprogress'', seg_text = ascii ''hi'', completed = False\<rparr>
      \<in> set (segments ?m)"
    by (simp add: send_update_sync_def)
  note inst = blank_text_not_queued [of "[32, 9]" sample_libs "''peer''" init "''id1''" example_trace]
  from inst b have "step sample_libs ''peer'' init (Realtime ''id1'' [32, 9]) = init"
    "step sample_libs ''peer'' init (Final ''id1'' [32, 9]) = init"
    by blast+
  moreover from inst h s have "\<exists>c \<in> set (ascii ''hi''). \<not> isspace c"
    by fastforce
  ultimately show ?thesis using sp h by blast
qed

subsection \<open>The receive loop and the teardown\<close>

lemma handle_message_calls:
  "handle_message L f = Inr (cs, ls) \<Longrightarrow> filter teardown_call cs = []"
  by (cases f) (auto split: sum.splits py_error.splits json.splits if_splits)

lemma frombuffer_unaligned: "length message mod 4 \<noteq> 0 \<Longrightarrow> frombuffer message = Inl ValueError"
  by (simp add: frombuffer_def)

lemma step_exited: "handler s = Exited x \<Longrightarrow> calls (step L u s e) = calls s \<and> handler (step L u s e) = handler s"
  by (cases e) (auto split: option.splits list.splits sender_state.splits)

text \<open>
  Claim C10. A binary frame whose length is not a multiple of 4 makes the decode
  step raise \<^verbatim>\<open>ValueError\<close>; nothing is fed to the recorder for it; the handler
  runs its \<^verbatim>\<open>finally\<close> block and leaves with the exception, and no later message
  is processed.
\<close>

theorem unaligned_frame_exits:
  assumes "length message mod 4 \<noteq> 0" and "handler s = Receiving"
  shows "frombuffer message = Inl ValueError \<and>
         step L u s (Recv (Binary message)) = (finally_block s)\<lparr>handler := Exited (Some ValueError)\<rparr> \<and>
         calls (step L u s (Recv (Binary message))) = calls s @ [CancelSender, Shutdown, Join 2] \<and>
         (\<forall>f. step L u (step L u s (Recv (Binary message))) (Recv f) = step L u s (Recv (Binary message)))"
  using assms by (simp add: frombuffer_unaligned finally_block_def)

theorem unaligned_frame_exits_witness:
  "length [0, 0, 0x80 :: byte] mod 4 \<noteq> 0 \<and> handler init = Receiving \<and>
   frombuffer [0, 0, 0x80] = Inl ValueError \<and>
   handler (step sample_libs ''peer'' init (Recv (Binary [0, 0, 0x80]))) = Exited (Some ValueError) \<and>
   calls (step sample_libs ''peer'' init (Recv (Binary [0, 0, 0x80]))) = [CancelSender, Shutdown, Join 2]"
proof -
  have h: "length [0, 0, 0x80 :: byte] mod 4 \<noteq> 0" "handler init = Receiving"
    by (simp_all add: init_def)
  from unaligned_frame_exits [OF h, of sample_libs "''peer''"] h show ?thesis
    by (simp add: init_def finally_block_def)
qed

lemma finally_block_calls:
  "calls (finally_block s) = calls s @ [CancelSender, Shutdown, Join 2]"
  "sender (finally_block s) \<noteq> AwaitGet" "sender (finally_block s) \<noteq> AwaitSend m"
  by (auto simp: finally_block_def split: sender_state.splits)

lemma teardown_invariant:
  "(handler (run L u tr) = Receiving \<longrightarrow> filter teardown_call (calls (run L u tr)) = []) \<and>
   (\<forall>x. handler (run L u tr) = Exited x \<longrightarrow>
      (\<exists>pre. calls (run L u tr) = pre @ [CancelSender, Shutdown, Join 2] \<and> filter teardown_call pre = []) \<and>
      sender (run L u tr) \<noteq> AwaitGet \<and> (\<forall>m. sender (run L u tr) \<noteq> AwaitSend m))"
proof (induction tr rule: rev_induct)
  case Nil
  then show ?case by (simp add: run_Nil init_def)
next
  case (snoc e tr)
  define s where "s = run L u tr"
  note IH = snoc [folded s_def]
  show ?case
    unfolding run_snoc s_def [symmetric]
  proof (cases "handler s")
    case Receiving
    with IH have pre: "filter teardown_call (calls s) = []" by simp
    show "(handler (step L u s e) = Receiving \<longrightarrow> filter teardown_call (calls (step L u s e)) = []) \<and>
      (\<forall>x. handler (step L u s e) = Exited x \<longrightarrow>
        (\<exists>pre. calls (step L u s e) = pre @ [CancelSender, Shutdown, Join 2] \<and> filter teardown_call pre = []) \<and>
        sender (step L u s e) \<noteq> AwaitGet \<and> (\<forall>m. sender (step L u s e) \<noteq> AwaitSend m))"
    proof (cases e)
      case (Recv f)
      show ?thesis
      proof (cases "handle_message L f")
        case (Inl err)
        then show ?thesis using Receiving Recv pre by (simp add: finally_block_calls)
      next
        case (Inr r)
        then obtain cs ls where r: "r = (cs, ls)" by (cases r)
        with Inr handle_message_calls [of L f cs ls] show ?thesis
          using Receiving Recv pre by simp
      qed
    next
      case (RecvEnd c)
      then show ?thesis using Receiving pre
        by (cases c) (simp_all add: finally_block_calls)
    qed (use Receiving pre in \<open>auto split: option.splits list.splits sender_state.splits\<close>)
  next
    case (Exited x)
    with IH have ex: "\<exists>pre. calls s = pre @ [CancelSender, Shutdown, Join 2] \<and> filter teardown_call pre = []"
      and snd: "sender s \<noteq> AwaitGet" "\<forall>m. sender s \<noteq> AwaitSend m" by auto
    have st: "calls (step L u s e) = calls s" "handler (step L u s e) = Exited x"
      using step_exited [OF Exited, of L u e] Exited by simp_all
    have "sender (step L u s e) = sender s"
      using Exited snd by (cases e) (auto split: option.splits list.splits sender_state.splits)
    with st ex snd
    show "(handler (step L u s e) = Receiving \<longrightarrow> filter teardown_call (calls (step L u s e)) = []) \<and>
      (\<forall>x. handler (step L u s e) = Exited x \<longrightarrow>
        (\<exists>pre. calls (step L u s e) = pre @ [CancelSender, Shutdown, Join 2] \<and> filter teardown_call pre = []) \<and>
        sender (step L u s e) \<noteq> AwaitGet \<and> (\<forall>m. sender (step L u s e) \<noteq> AwaitSend m))"
      by simp
  qed
qed

text \<open>
  Claim C7, as amended. The exit paths of the receive loop are the ends of the
  iteration (normal close, transport error, cancellation of the task) and the
  messages that raise; an end-of-stream message is not one of them: it calls
  \<^verbatim>\<open>recorder.stop()\<close>, the handler stays in the loop and no teardown call is made.
  While the handler is in its receive loop no teardown call has been made. On
  every exit path the handler makes the calls \<^verbatim>\<open>sender.cancel()\<close>,
  \<^verbatim>\<open>recorder.shutdown()\<close>, \<^verbatim>\<open>recorder_thread.join(timeout=2)\<close> in this order and
  leaves in the same step, whatever the sender task and the recorder loop are
  doing (the join is bounded by its timeout). Once it has left, the calls end
  with these three, no teardown call occurs before them, the sender task is
  cancelled or done, and no event adds a call: each teardown call is made
  exactly once per session.
\<close>

theorem teardown_exactly_once:
  "(handler (run L u tr) = Receiving \<longrightarrow> filter teardown_call (calls (run L u tr)) = []) \<and>
   (\<forall>x. handler (run L u tr) = Exited x \<longrightarrow>
      (\<exists>pre. calls (run L u tr) = pre @ [CancelSender, Shutdown, Join 2] \<and> filter teardown_call pre = []) \<and>
      sender (run L u tr) \<noteq> AwaitGet \<and> (\<forall>m. sender (run L u tr) \<noteq> AwaitSend m)) \<and>
   handler (step L u (run L u tr) (RecvEnd c)) \<noteq> Receiving \<and>
   (\<not> benign L f \<longrightarrow> handler (step L u (run L u tr) (Recv f)) \<noteq> Receiving) \<and>
   (handler (run L u tr) \<noteq> Receiving \<longrightarrow>
      calls (step L u (run L u tr) e) = calls (run L u tr) \<and>
      handler (step L u (run L u tr) e) = handler (run L u tr)) \<and>
   (handler (run L u tr) = Receiving \<and> json_loads L t = Inr (JDict kvs) \<and>
    get_truthy kvs (ascii ''EOS'') \<longrightarrow>
      handler (step L u (run L u tr) (Recv (Text t))) = Receiving \<and>
      calls (step L u (run L u tr) (Recv (Text t))) = calls (run L u tr) @ [Stop] \<and>
      filter teardown_call (calls (step L u (run L u tr) (Recv (Text t)))) = []) \<and>
   (handler s = Receiving \<longrightarrow>
      handler (step L u s (RecvEnd c)) = Exited (if c = TaskCancelled then Some CancelledError else None) \<and>
      calls (step L u s (RecvEnd c)) = calls s @ [CancelSender, Shutdown, Join 2] \<and>
      worker_running (step L u s (RecvEnd c)) = worker_running s) \<and>
   (handler s = Receiving \<and> \<not> benign L f \<longrightarrow>
      (\<exists>err. handle_message L f = Inl err \<and> handler (step L u s (Recv f)) = Exited (Some err)) \<and>
      calls (step L u s (Recv f)) = calls s @ [CancelSender, Shutdown, Join 2] \<and>
      worker_running (step L u s (Recv f)) = worker_running s)"
proof -
  have d: "handler (run L u tr) = Receiving \<and> json_loads L t = Inr (JDict kvs) \<and>
    get_truthy kvs (ascii ''EOS'') \<longrightarrow>
      handler (step L u (run L u tr) (Recv (Text t))) = Receiving \<and>
      calls (step L u (run L u tr) (Recv (Text t))) = calls (run L u tr) @ [Stop] \<and>
      filter teardown_call (calls (step L u (run L u tr) (Recv (Text t)))) = []"
    using teardown_invariant [of L u tr] by simp
  have g: "handler s = Receiving \<longrightarrow>
      handler (step L u s (RecvEnd c)) = Exited (if c = TaskCancelled then Some CancelledError else None) \<and>
      calls (step L u s (RecvEnd c)) = calls s @ [CancelSender, Shutdown, Join 2] \<and>
      worker_running (step L u s (RecvEnd c)) = worker_running s"
    by (cases c) (simp_all add: finally_block_def)
  have h: "handler s = Receiving \<and> \<not> benign L f \<longrightarrow>
      (\<exists>err. handle_message L f = Inl err \<and> handler (step L u s (Recv f)) = Exited (Some err)) \<and>
      calls (step L u s (Recv f)) = calls s @ [CancelSender, Shutdown, Join 2] \<and>
      worker_running (step L u s (Recv f)) = worker_running s"
    by (cases "handle_message L f") (auto simp: benign_def finally_block_def)
  define s where "s = run L u tr"
  have a: "handler (step L u s (RecvEnd c)) \<noteq> Receiving"
    by (cases "handler s"; cases c) simp_all
  have b: "\<not> benign L f \<longrightarrow> handler (step L u s (Recv f)) \<noteq> Receiving"
    by (cases "handler s") (auto simp: benign_def split: sum.splits)
  have c: "handler s \<noteq> Receiving \<longrightarrow>
      calls (step L u s e) = calls s \<and> handler (step L u s e) = handler s"
    using step_exited [of s _ L u e] by (cases "handler s") auto
  from teardown_invariant [of L u tr] a b c d g h show ?thesis
    unfolding s_def by blast
qed

lemma sample_eos: \<open>handle_message sample_libs (Text (ascii ''{"EOS": true}''))
    = Inr ([Stop], [(INFO, EndOfStreamReceived)])\<close>
  by (simp add: sample_libs_def sample_loads_def ascii_simps get_truthy_def)

lemma sample_loads_eos:
  \<open>json_loads sample_libs (ascii ''{"EOS": true}'') = Inr (JDict [(ascii ''EOS'', JBool True)])\<close>
  by (simp add: sample_libs_def sample_loads_def ascii_simps)

lemma sample_audio: "handle_message sample_libs (Binary [0, 0, 0x80, 0x3E]) = Inr ([Feed [0xFF, 0x1F]], [])"
  by (simp add: frombuffer_def sample_quarter_bytes)

lemma hello_strip: "strip (ascii ''hello'') \<noteq> []"
  by (simp add: strip_def isspace_def ascii_simps)

lemma eos_run:
  "run sample_libs ''peer'' eos_trace =
     init\<lparr>sent := [send_update_sync ''peer'' ''id1'' ''transcribed'' (ascii ''hello'') True],
          calls := [Stop, Feed [0xFF, 0x1F]],
          log := [(INFO, EndOfStreamReceived), (INFO, FinalTranscription (ascii ''hello''))]\<rparr>"
  by (simp add: eos_trace_def run_def init_def sample_eos sample_audio on_final_text_callback_def
      hello_strip del: handle_message.simps)


theorem teardown_exactly_once_witness:
  \<open>handler (run sample_libs ''peer'' eos_trace) = Receiving \<and>
   filter teardown_call (calls (run sample_libs ''peer'' eos_trace)) = [] \<and>
   json_loads sample_libs (ascii ''{"EOS": true}'') = Inr (JDict [(ascii ''EOS'', JBool True)]) \<and>
   get_truthy [(ascii ''EOS'', JBool True)] (ascii ''EOS'') \<and>
   handler (step sample_libs ''peer'' (run sample_libs ''peer'' eos_trace)
              (Recv (Text (ascii ''{"EOS": true}'')))) = Receiving \<and>
   calls (step sample_libs ''peer'' (run sample_libs ''peer'' eos_trace)
              (Recv (Text (ascii ''{"EOS": true}'')))) = [Stop, Feed [0xFF, 0x1F], Stop] \<and>
   handler init = Receiving \<and>
   handler (step sample_libs ''peer'' init (RecvEnd ClosedError)) = Exited None \<and>
   calls (step sample_libs ''peer'' init (RecvEnd ClosedError)) = [CancelSender, Shutdown, Join 2] \<and>
   \<not> benign sample_libs (Binary [0, 0, 0x80]) \<and>
   handler (step sample_libs ''peer'' init (Recv (Binary [0, 0, 0x80]))) = Exited (Some ValueError) \<and>
   calls (step sample_libs ''peer'' init (Recv (Binary [0, 0, 0x80]))) = [CancelSender, Shutdown, Join 2] \<and>
   handler (run sample_libs ''peer'' (eos_trace @ [RecvEnd ClosedError])) = Exited None \<and>
   calls (run sample_libs ''peer'' (eos_trace @ [RecvEnd ClosedError]))
     = [Stop, Feed [0xFF, 0x1F]] @ [CancelSender, Shutdown, Join 2] \<and>
   filter teardown_call [Stop, Feed [0xFF, 0x1F]] = [] \<and>
   sender (run sample_libs ''peer'' (eos_trace @ [RecvEnd ClosedError])) = Cancelled \<and>
   calls (step sample_libs ''peer'' (run sample_libs ''peer'' (eos_trace @ [RecvEnd ClosedError]))
            (RecvEnd ClosedOK))
     = [Stop, Feed [0xFF, 0x1F], CancelSender, Shutdown, Join 2]\<close>
proof -
  let ?r = "run sample_libs ''peer'' eos_trace"
  let ?s = "run sample_libs ''peer'' (eos_trace @ [RecvEnd ClosedError])"
  have h1: "handler ?r = Receiving" and cr: "calls ?r = [Stop, Feed [0xFF, 0x1F]]"
    by (simp_all add: eos_run init_def)
  have h2: "get_truthy [(ascii ''EOS'', JBool True)] (ascii ''EOS'')" by (simp add: get_truthy_def)
  have h3: "handler init = Receiving" and ci: "calls init = []" by (simp_all add: init_def)
  have h4: "\<not> benign sample_libs (Binary [0, 0, 0x80])"
    by (simp add: benign_def frombuffer_def)
  have v: "handle_message sample_libs (Binary [0, 0, 0x80]) = Inl ValueError"
    by (simp add: frombuffer_def)
  note open_inst = teardown_exactly_once [where L = sample_libs and u = "''peer''" and tr = eos_trace
      and t = \<open>ascii ''{"EOS": true}''\<close> and kvs = "[(ascii ''EOS'', JBool True)]"
      and s = init and c = ClosedError and f = "Binary [0, 0, 0x80]"]
  from open_inst h1 have a: "filter teardown_call (calls ?r) = []" by blast
  from open_inst h1 h2 sample_loads_eos
  have b: \<open>handler (step sample_libs ''peer'' ?r (Recv (Text (ascii ''{"EOS": true}'')))) = Receiving \<and>
      calls (step sample_libs ''peer'' ?r (Recv (Text (ascii ''{"EOS": true}'')))) = calls ?r @ [Stop]\<close>
    by blast
  from open_inst h3
  have c: "handler (step sample_libs ''peer'' init (RecvEnd ClosedError))
        = Exited (if ClosedError = TaskCancelled then Some CancelledError else None) \<and>
      calls (step sample_libs ''peer'' init (RecvEnd ClosedError)) = calls init @ [CancelSender, Shutdown, Join 2]"
    by blast
  from open_inst h3 h4
  have d: "(\<exists>err. handle_message sample_libs (Binary [0, 0, 0x80]) = Inl err \<and>
        handler (step sample_libs ''peer'' init (Recv (Binary [0, 0, 0x80]))) = Exited (Some err)) \<and>
      calls (step sample_libs ''peer'' init (Recv (Binary [0, 0, 0x80]))) = calls init @ [CancelSender, Shutdown, Join 2]"
    by blast
  from b cr have b': \<open>handler (step sample_libs ''peer'' ?r (Recv (Text (ascii ''{"EOS": true}'')))) = Receiving \<and>
      calls (step sample_libs ''peer'' ?r (Recv (Text (ascii ''{"EOS": true}'')))) = [Stop, Feed [0xFF, 0x1F], Stop]\<close>
    by simp
  from c ci have c': "handler (step sample_libs ''peer'' init (RecvEnd ClosedError)) = Exited None \<and>
      calls (step sample_libs ''peer'' init (RecvEnd ClosedError)) = [CancelSender, Shutdown, Join 2]"
    by simp
  from d v ci have d': "handler (step sample_libs ''peer'' init (Recv (Binary [0, 0, 0x80]))) = Exited (Some ValueError) \<and>
      calls (step sample_libs ''peer'' init (Recv (Binary [0, 0, 0x80]))) = [CancelSender, Shutdown, Join 2]"
    by auto
  have r: "handler ?s = Exited None" "calls ?s = [Stop, Feed [0xFF, 0x1F]] @ [CancelSender, Shutdown, Join 2]"
    "sender ?s = Cancelled"
    by (simp_all add: run_snoc eos_run init_def finally_block_def)
  then have "handler ?s \<noteq> Receiving" by simp
  with teardown_exactly_once [where L = sample_libs and u = "''peer''"
      and tr = "eos_trace @ [RecvEnd ClosedError]" and e = "RecvEnd ClosedOK"]
  have "calls (step sample_libs ''peer'' ?s (RecvEnd ClosedOK)) = calls ?s" by blast
  with r have e: "calls (step sample_libs ''peer'' ?s (RecvEnd ClosedOK))
      = [Stop, Feed [0xFF, 0x1F], CancelSender, Shutdown, Join 2]"
    "filter teardown_call [Stop, Feed [0xFF, 0x1F]] = []"
    by simp_all
  from h1 a sample_loads_eos h2 b' h3 c' h4 d' r e show ?thesis by blast
qed

text \<open>
  The claim as stated fails: it counts end-of-stream among the exit paths on
  which the teardown runs. After the message \<^verbatim>\<open>{"EOS": true}\<close> the handler is
  still receiving, the only call made is \<^verbatim>\<open>recorder.stop()\<close>, and the sender task
  still waits for messages.
\<close>

theorem eos_runs_teardown_counterexample:
  \<open>json_loads sample_libs (ascii ''{"EOS": true}'') = Inr (JDict [(ascii ''EOS'', JBool True)]) \<and>
   handler (run sample_libs ''peer'' [Recv (Text (ascii ''{"EOS": true}''))]) = Receiving \<and>
   calls (run sample_libs ''peer'' [Recv (Text (ascii ''{"EOS": true}''))]) = [Stop] \<and>
   filter teardown_call (calls (run sample_libs ''peer'' [Recv (Text (ascii ''{"EOS": true}''))])) = [] \<and>
   sender (run sample_libs ''peer'' [Recv (Text (ascii ''{"EOS": true}''))]) = AwaitGet\<close>
  by (simp add: run_def init_def sample_eos sample_loads_eos del: handle_message.simps)








text \<open>
  Claim C5, as amended. A text on which \<^verbatim>\<open>json.loads\<close> raises
  \<^verbatim>\<open>JSONDecodeError\<close> is logged with a warning and dropped; a text that decodes to
  an object without a true \<^verbatim>\<open>EOS\<close> entry is dropped without a log entry. In both
  cases nothing else in the session changes: the handler keeps receiving.
\<close>

theorem undecodable_text_dropped:
  "handler s = Receiving \<longrightarrow>
     (json_loads L t = Inl JSONDecodeError \<longrightarrow>
        step L u s (Recv (Text t)) = s\<lparr>log := log s @ [(WARNING, NonJsonText t)]\<rparr>) \<and>
     (\<forall>kvs. json_loads L t = Inr (JDict kvs) \<and> \<not> get_truthy kvs (ascii ''EOS'') \<longrightarrow>
        step L u s (Recv (Text t)) = s)"
  by auto

lemma sample_loads_hello: "json_loads sample_libs (ascii ''hello'') = Inl JSONDecodeError"
  by (simp add: sample_libs_def sample_loads_def ascii_simps)

lemma sample_loads_a:
  \<open>json_loads sample_libs (ascii ''{"a": 1}'') = Inr (JDict [(ascii ''a'', JInt 1)])\<close>
  by (simp add: sample_libs_def sample_loads_def ascii_simps)

lemma sample_a_falsy: "\<not> get_truthy [(ascii ''a'', JInt 1)] (ascii ''EOS'')"
  by (simp add: get_truthy_def ascii_simps)

theorem undecodable_text_dropped_witness:
  \<open>handler init = Receiving \<and>
   json_loads sample_libs (ascii ''hello'') = Inl JSONDecodeError \<and>
   step sample_libs ''peer'' init (Recv (Text (ascii ''hello'')))
     = init\<lparr>log := [(WARNING, NonJsonText (ascii ''hello''))]\<rparr> \<and>
   json_loads sample_libs (ascii ''{"a": 1}'') = Inr (JDict [(ascii ''a'', JInt 1)]) \<and>
   step sample_libs ''peer'' init (Recv (Text (ascii ''{"a": 1}''))) = init\<close>
proof -
  have h1: "handler init = Receiving" and i: "log init = []" by (simp_all add: init_def)
  from undecodable_text_dropped [of init sample_libs "ascii ''hello''" "''peer''"] h1 sample_loads_hello
  have "step sample_libs ''peer'' init (Recv (Text (ascii ''hello'')))
     = init\<lparr>log := log init @ [(WARNING, NonJsonText (ascii ''hello''))]\<rparr>"
    by blast
  then have a: "step sample_libs ''peer'' init (Recv (Text (ascii ''hello'')))
     = init\<lparr>log := [(WARNING, NonJsonText (ascii ''hello''))]\<rparr>"
    by (simp only: i append_Nil)
  from undecodable_text_dropped [of init sample_libs \<open>ascii ''{"a": 1}''\<close> "''peer''"] h1
    sample_loads_a sample_a_falsy
  have b: \<open>step sample_libs ''peer'' init (Recv (Text (ascii ''{"a": 1}''))) = init\<close>
    by blast
  from h1 sample_loads_hello a sample_loads_a b show ?thesis by blast
qed

text \<open>
  Not part of the amended claim: a text that decodes to anything but an object
  has no \<^verbatim>\<open>get\<close>; the \<^verbatim>\<open>AttributeError\<close> is not caught and ends the session.
\<close>

lemma non_object_text_raises:
  assumes "handler s = Receiving" and "json_loads L t = Inr d" and "\<forall>kvs. d \<noteq> JDict kvs"
  shows "handler (step L u s (Recv (Text t))) = Exited (Some AttributeError)"
  using assms by (cases d) simp_all

lemma empty_array_text_raises:
  "handler (step sample_libs ''peer'' init (Recv (Text (ascii ''[]'')))) = Exited (Some AttributeError)"
  by (rule non_object_text_raises [where d = "JList []"])
    (simp_all add: init_def sample_libs_def sample_loads_def ascii_simps)

text \<open>
  The claim as stated fails at the text \<^verbatim>\<open>{"a": 1}\<close>: it is not a control
  message, and it is dropped without being logged.
\<close>

theorem unrecognized_text_logged_counterexample:
  \<open>json_loads sample_libs (ascii ''{"a": 1}'') = Inr (JDict [(ascii ''a'', JInt 1)]) \<and>
   handler init = Receiving \<and>
   log (step sample_libs ''peer'' init (Recv (Text (ascii ''{"a": 1}'')))) = log init \<and>
   log init = []\<close>
  by (simp add: sample_loads_a sample_a_falsy init_def)

text \<open>
  Claim C6, as amended. Processing a text frame calls \<^verbatim>\<open>recorder.stop()\<close> iff
  \<^verbatim>\<open>json.loads\<close> returns an object that has an \<^verbatim>\<open>EOS\<close> entry whose value Python
  takes as true (\<^verbatim>\<open>true\<close>, a number other than zero, a string, array or object
  that is not empty).
\<close>

theorem stop_iff_eos_truthy:
  "handler s = Receiving \<longrightarrow>
     (Stop \<in> set (drop (length (calls s)) (calls (step L u s (Recv (Text t)))))
        \<longleftrightarrow> (\<exists>kvs v. json_loads L t = Inr (JDict kvs) \<and>
                      map_of kvs (ascii ''EOS'') = Some v \<and> truthy v))"
  by (auto simp: get_truthy_def finally_block_def
      split: sum.splits py_error.splits json.splits option.splits)

lemma sample_loads_one:
  \<open>json_loads sample_libs (ascii ''{"EOS": 1}'') = Inr (JDict [(ascii ''EOS'', JInt 1)])\<close>
  by (simp add: sample_libs_def sample_loads_def ascii_simps)

theorem stop_iff_eos_truthy_witness:
  \<open>handler init = Receiving \<and>
   json_loads sample_libs (ascii ''{"EOS": true}'') = Inr (JDict [(ascii ''EOS'', JBool True)]) \<and>
   map_of [(ascii ''EOS'', JBool True)] (ascii ''EOS'') = Some (JBool True) \<and> truthy (JBool True) \<and>
   Stop \<in> set (drop (length (calls init))
              (calls (step sample_libs ''peer'' init (Recv (Text (ascii ''{"EOS": true}''))))))\<close>
proof -
  have h1: "handler init = Receiving" by (simp add: init_def)
  have h2: "map_of [(ascii ''EOS'', JBool True)] (ascii ''EOS'') = Some (JBool True)" by simp
  have h3: "truthy (JBool True)" by simp
  from stop_iff_eos_truthy [of init sample_libs "''peer''" \<open>ascii ''{"EOS": true}''\<close>]
    h1 sample_loads_eos h2 h3
  have \<open>Stop \<in> set (drop (length (calls init))
              (calls (step sample_libs ''peer'' init (Recv (Text (ascii ''{"EOS": true}''))))))\<close>
    by blast
  with h1 sample_loads_eos h2 h3 show ?thesis by blast
qed

text \<open>
  The claim as stated fails at the text \<^verbatim>\<open>{"EOS": 1}\<close>: the entry is not
  \<^verbatim>\<open>true\<close>, and \<^verbatim>\<open>recorder.stop()\<close> is called.
\<close>

theorem stop_only_on_true_counterexample:
  \<open>json_loads sample_libs (ascii ''{"EOS": 1}'') = Inr (JDict [(ascii ''EOS'', JInt 1)]) \<and>
   JInt 1 \<noteq> JBool True \<and>
   handler init = Receiving \<and>
   calls (step sample_libs ''peer'' init (Recv (Text (ascii ''{"EOS": 1}'')))) = calls init @ [Stop]\<close>
  by (simp add: sample_loads_one get_truthy_def init_def)

end
